(* ===== verification/Nv_Prelude.thy ===== *)
theory Nv_Prelude
  imports Main "HOL-Library.Word" "HOL-Library.Signed_Division"
begin

text \<open>
  The shared vocabulary of the development: the machine integers of the C++ code, the ways
  in which a run leaves the language (undefined behaviour, an abort, an uncaught exception)
  as values of \<open>fault\<close>, the model of \<^verbatim>\<open>memcpy\<close> out of a \<^verbatim>\<open>std::string\<close>, and of
  \<^verbatim>\<open>std::to_string\<close>, with the generic lemmas the component theories use.

  Every call into code that is not part of the repository (the kernel, gRPC, libnvme,
  liburing, ibverbs) is an argument of the definition that makes the call: a function that
  takes the state \<open>'w\<close> of the world and returns a result and the next world.
\<close>

named_theorems c_eval \<open>definitions that evaluate C integer arithmetic on numerals\<close>
named_theorems option_access \<open>reading an option of a command line\<close>

section \<open>Machine integers\<close>

type_synonym byte = "8 word"
type_synonym u16 = "16 word"
type_synonym u32 = "32 word"
type_synonym u64 = "64 word"

text \<open>A C \<^verbatim>\<open>int\<close> is a mathematical integer within these bounds.\<close>

abbreviation INT_MAX :: int where "INT_MAX \<equiv> 2147483647"
abbreviation INT_MIN :: int where "INT_MIN \<equiv> - 2147483648"

definition is_int :: "int \<Rightarrow> bool" where [c_eval]:
  "is_int i \<longleftrightarrow> INT_MIN \<le> i \<and> i \<le> INT_MAX"

lemma is_int_nonneg: "0 \<le> i \<Longrightarrow> i \<le> INT_MAX \<Longrightarrow> is_int i"
  by (simp add: is_int_def)

text \<open>The conversion of an integer to a 32-bit signed field (two's complement).\<close>

definition to_int32 :: "int \<Rightarrow> int" where
  "to_int32 i = signed_take_bit 31 i"

lemma to_int32_id [simp]: "is_int i \<Longrightarrow> to_int32 i = i"
  unfolding to_int32_def is_int_def
  by (rule signed_take_bit_int_eq_self) auto

lemma is_int_to_int32: "is_int (to_int32 i)"
  using signed_take_bit_int_greater_eq_minus_exp [of 31 i] signed_take_bit_int_less_exp [of 31 i]
  by (simp add: to_int32_def is_int_def)

lemma uint16_pred: "1 \<le> n \<Longrightarrow> n \<le> 65536 \<Longrightarrow> uint (word_of_int n - 1 :: u16) = n - 1"
proof -
  assume "1 \<le> n" and "n \<le> 65536"
  then have "uint (word_of_int (n - 1) :: u16) = n - 1"
    by (simp only: uint_word_of_int_eq) (simp add: take_bit_int_eq_self)
  then show ?thesis by simp
qed

text \<open>Conversion to a \<^verbatim>\<open>size_t\<close>: the identity on non-negative values, sign extension on negative ones.\<close>

lemma uint64_nonneg: "0 \<le> i \<Longrightarrow> i < 2 ^ 64 \<Longrightarrow> uint (word_of_int i :: u64) = i"
  by (simp only: uint_word_of_int_eq) (simp add: take_bit_int_eq_self)

lemma uint64_neg: "- (2 ^ 63) \<le> i \<Longrightarrow> i < 0 \<Longrightarrow> uint (word_of_int i :: u64) = 2 ^ 64 + i"
proof -
  assume "- (2 ^ 63) \<le> i" and "i < 0"
  then have "(i + 2 ^ 64) mod 2 ^ 64 = i + 2 ^ 64" by (intro mod_pos_pos_trivial) auto
  then have "i mod 2 ^ 64 = i + 2 ^ 64" by simp
  then show ?thesis by (simp add: uint_word_of_int_eq take_bit_eq_mod)
qed

section \<open>Leaving the language\<close>

datatype fault =
    Overread            \<comment> \<open>a read past the end of an object\<close>
  | Heap_overflow       \<comment> \<open>a write past the end of a heap block\<close>
  | Signed_overflow     \<comment> \<open>an \<^verbatim>\<open>int\<close> result out of range\<close>
  | Div_by_zero
  | Bad_alloc           \<comment> \<open>\<^verbatim>\<open>new\<close> of a negative length\<close>
  | Null_pointer
  | Uninitialised
  | Use_after_free
  | Assert_failed       \<comment> \<open>\<^verbatim>\<open>GPR_ASSERT\<close>\<close>
  | Terminate           \<comment> \<open>\<^verbatim>\<open>std::terminate\<close>\<close>
  | Bad_thread          \<comment> \<open>a thread identifier that names no thread\<close>
  | Blocked             \<comment> \<open>a wait that nothing can end\<close>

type_synonym 'a outcome = "fault + 'a"

definition bindF :: "'a outcome \<Rightarrow> ('a \<Rightarrow> 'b outcome) \<Rightarrow> 'b outcome" where
  "bindF m f = (case m of Inl e \<Rightarrow> Inl e | Inr x \<Rightarrow> f x)"

lemma bindF_simps [simp]: "bindF (Inl e) f = Inl e" "bindF (Inr x) f = f x"
  by (simp_all add: bindF_def)

lemma bindF_eq_Inr: "bindF m f = Inr y \<longleftrightarrow> (\<exists>x. m = Inr x \<and> f x = Inr y)"
  by (cases m) simp_all

text \<open>Results of a chain of calls, turned into equations about the calls.\<close>

lemma case_prod_eq_iff: "(case p of (x, y) \<Rightarrow> f x y) = r \<longleftrightarrow> (\<exists>x y. p = (x, y) \<and> f x y = r)"
  by (cases p) simp

lemmas run_iffs = bindF_eq_Inr case_prod_eq_iff Let_def

definition checked_int :: "int \<Rightarrow> int outcome" where [c_eval]:
  "checked_int i = (if is_int i then Inr i else Inl Signed_overflow)"

lemma checked_int_Inr [simp]: "checked_int i = Inr j \<longleftrightarrow> is_int i \<and> j = i"
  by (auto simp: checked_int_def)

text \<open>Division of \<^verbatim>\<open>int\<close>s truncates towards zero; division by zero is undefined.\<close>

definition c_div :: "int \<Rightarrow> int \<Rightarrow> int outcome" where [c_eval]:
  "c_div a b = (if b = 0 then Inl Div_by_zero else checked_int (a sdiv b))"

definition c_rem :: "int \<Rightarrow> int \<Rightarrow> int outcome" where [c_eval]:
  "c_rem a b = (if b = 0 then Inl Div_by_zero
                else if \<not> is_int (a sdiv b) then Inl Signed_overflow else Inr (a smod b))"

declare signed_divide_int_def [c_eval] signed_modulo_int_def [c_eval]

lemma sdiv_pos: "0 \<le> a \<Longrightarrow> 0 < b \<Longrightarrow> (a :: int) sdiv b = a div b"
  by (cases "a = 0") (simp_all add: signed_divide_int_def)

lemma smod_pos: "0 \<le> a \<Longrightarrow> 0 < b \<Longrightarrow> (a :: int) smod b = a mod b"
  by (cases "a = 0") (simp_all add: signed_modulo_int_def sdiv_pos)

lemma div_le_self_int: "0 \<le> a \<Longrightarrow> 0 < b \<Longrightarrow> (a :: int) div b \<le> a"
  using zdiv_mono2 [of a 1 b] by simp

lemma c_div_pos: "is_int a \<Longrightarrow> 0 \<le> a \<Longrightarrow> 0 < b \<Longrightarrow> c_div a b = Inr (a div b)"
  using div_le_self_int [of a b] pos_imp_zdiv_nonneg_iff [of b a]
  by (simp add: c_div_def checked_int_def sdiv_pos is_int_def)

lemma c_rem_pos: "is_int a \<Longrightarrow> 0 \<le> a \<Longrightarrow> 0 < b \<Longrightarrow> c_rem a b = Inr (a mod b)"
  using c_div_pos [of a b] by (auto simp: c_rem_def c_div_def checked_int_def smod_pos split: if_splits)

text \<open>The number of blocks of \<open>b\<close> bytes that hold \<open>a\<close> bytes.\<close>

definition ceil_div :: "int \<Rightarrow> int \<Rightarrow> int" where
  "ceil_div a b = (a + b - 1) div b"

lemma ceil_div_cases:
  assumes "0 < b"
  shows "ceil_div a b = (if a mod b = 0 then a div b else a div b + 1)"
proof (cases "a mod b = 0")
  case True
  then have "a = b * (a div b)" by (metis add.right_neutral mult_div_mod_eq)
  then have "a + b - 1 = b * (a div b) + (b - 1)" by linarith
  from int_div_pos_eq [OF this] assms True show ?thesis by (simp add: ceil_div_def)
next
  case False
  have "0 \<le> a mod b" and "a mod b < b" using assms by simp_all
  moreover have "a + b - 1 = b * (a div b + 1) + (a mod b - 1)"
    using mult_div_mod_eq [of b a] by (simp add: distrib_left)
  ultimately show ?thesis
    using int_div_pos_eq [of "a + b - 1" b "a div b + 1" "a mod b - 1"] False
    by (simp add: ceil_div_def)
qed

lemma ceil_div_bounds:
  assumes "0 < a" and "0 < b"
  shows "1 \<le> ceil_div a b" and "a \<le> ceil_div a b * b" and "(ceil_div a b - 1) * b < a"
    and "ceil_div a b \<le> a"
proof -
  have m: "ceil_div a b * b = a + b - 1 - (a + b - 1) mod b"
    by (simp add: ceil_div_def minus_mod_eq_div_mult)
  have r: "0 \<le> (a + b - 1) mod b" "(a + b - 1) mod b < b" using assms(2) by simp_all
  show le: "a \<le> ceil_div a b * b" using m r by linarith
  have "(ceil_div a b - 1) * b = ceil_div a b * b - b" by (simp add: left_diff_distrib)
  then show lt: "(ceil_div a b - 1) * b < a" using m r by linarith
  show "1 \<le> ceil_div a b"
  proof (rule ccontr)
    assume "\<not> 1 \<le> ceil_div a b"
    then have "ceil_div a b * b \<le> 0" using assms(2) by (simp add: mult_nonpos_nonneg)
    with le assms(1) show False by linarith
  qed
  show "ceil_div a b \<le> a"
  proof (rule ccontr)
    assume "\<not> ceil_div a b \<le> a"
    then have "a * 1 \<le> (ceil_div a b - 1) * b"
      using assms by (intro mult_mono) auto
    with lt show False by simp
  qed
qed

section \<open>Loops that may not end\<close>

text \<open>
  A loop of the source is its body, a function from the loop's variables to either the
  variables of the next iteration (\<open>Inl\<close>) or the value with which the loop is left (\<open>Inr\<close>).
  A loop that is never left is \<open>None\<close>.
\<close>

partial_function (option) loop :: "('s \<Rightarrow> 's + 'r) \<Rightarrow> 's \<Rightarrow> 'r option" where
  "loop body s = (case body s of Inl s' \<Rightarrow> loop body s' | Inr r \<Rightarrow> Some r)"

lemma loop_exit: "body s = Inr r \<Longrightarrow> loop body s = Some r"
  by (subst loop.simps) simp

lemma loop_next: "body s = Inl s' \<Longrightarrow> loop body s = loop body s'"
  by (subst loop.simps) simp

text \<open>Partial correctness: an invariant of the body, and what it gives on every exit.\<close>

lemma loop_rule:
  assumes run: "loop body s = Some r" and start: "I s"
    and step: "\<And>s s'. I s \<Longrightarrow> body s = Inl s' \<Longrightarrow> I s'"
    and exit: "\<And>s r. I s \<Longrightarrow> body s = Inr r \<Longrightarrow> Q r"
  shows "Q r"
proof -
  have "b = body \<longrightarrow> I t \<longrightarrow> Q q" if "loop b t = Some q" for b t q
  proof (rule loop.raw_induct [where P = "\<lambda>b t q. b = body \<longrightarrow> I t \<longrightarrow> Q q", OF _ that])
    fix f b t q
    assume IH: "\<And>b t q. f b t = Some q \<Longrightarrow> b = body \<longrightarrow> I t \<longrightarrow> Q q"
      and eq: "(case b t of Inl s' \<Rightarrow> f b s' | Inr r \<Rightarrow> Some r) = Some q"
    show "b = body \<longrightarrow> I t \<longrightarrow> Q q"
    proof (intro impI)
      assume b: "b = body" and I: "I t"
      show "Q q"
      proof (cases "b t")
        case (Inl s')
        with eq have "f b s' = Some q" by simp
        from IH [OF this] b step [OF I] Inl show ?thesis by simp
      next
        case (Inr r)
        with eq exit [OF I] b show ?thesis by simp
      qed
    qed
  qed
  from this [OF run] start show ?thesis by simp
qed

text \<open>Termination: a measure that every iteration decreases under the invariant.\<close>

lemma loop_ends:
  assumes start: "I s" and wf: "wf R"
    and step: "\<And>s s'. I s \<Longrightarrow> body s = Inl s' \<Longrightarrow> I s' \<and> (s', s) \<in> R"
  shows "\<exists>r. loop body s = Some r"
  using wf start
proof (induction s rule: wf_induct_rule)
  case (less s)
  show ?case
  proof (cases "body s")
    case (Inl s')
    with step [OF less.prems] less.IH [of s'] show ?thesis by (simp add: loop_next)
  next
    case (Inr r)
    then show ?thesis by (auto intro: loop_exit)
  qed
qed

text \<open>Divergence: a set of states in which the body never leaves.\<close>

lemma loop_diverges:
  assumes "I s" and "\<And>s. I s \<Longrightarrow> \<exists>s'. body s = Inl s' \<and> I s'"
  shows "loop body s = None"
proof (rule ccontr)
  assume "loop body s \<noteq> None"
  then obtain r where "loop body s = Some r" by auto
  from loop_rule [OF this, where I = I and Q = "\<lambda>_. False"] assms show False by fastforce
qed

section \<open>Bytes of a string, and memcpy out of it\<close>

text \<open>
  The bytes that \<^verbatim>\<open>std::string::data()\<close> points to: the contents and the terminating zero,
  which may be read; the byte after it may not.
\<close>

definition c_str :: "byte list \<Rightarrow> byte list" where
  "c_str s = s @ [0]"

definition memcpy_from :: "byte list \<Rightarrow> nat \<Rightarrow> byte list outcome" where
  "memcpy_from src n = (if n \<le> length src then Inr (take n src) else Inl Overread)"

lemma memcpy_from_Inr:
  "memcpy_from src n = Inr out \<longleftrightarrow> n \<le> length src \<and> out = take n src"
  by (auto simp: memcpy_from_def)

lemma memcpy_from_string:
  "n \<le> length s \<Longrightarrow> memcpy_from (c_str s) n = Inr (take n s)"
  by (simp add: memcpy_from_def c_str_def)

section \<open>Lists cut into blocks\<close>

lemma concat_blocks:
  "concat (map (\<lambda>i. take n (drop (i * n) xs)) [0..<k]) = take (k * n) xs"
proof (induction k)
  case (Suc k)
  have "take (k * n) xs @ take n (drop (k * n) xs) = take (k * n + n) xs"
    by (simp add: take_add)
  with Suc show ?case by (simp add: add.commute)
qed simp

section \<open>Decimal numerals\<close>

fun nat_to_string :: "nat \<Rightarrow> string" where
  "nat_to_string n =
     (if n < 10 then [char_of (48 + n)] else nat_to_string (n div 10) @ [char_of (48 + n mod 10)])"

declare nat_to_string.simps [simp del]

definition to_string :: "int \<Rightarrow> string" where
  "to_string i = (if i < 0 then CHR ''-'' # nat_to_string (nat (- i)) else nat_to_string (nat i))"

definition digits_value :: "string \<Rightarrow> nat" where
  "digits_value s = foldl (\<lambda>a c. 10 * a + (of_char c - 48)) 0 s"

lemma digits_value_snoc [simp]: "digits_value (s @ [c]) = 10 * digits_value s + (of_char c - 48)"
  by (simp add: digits_value_def)

lemma digit_char_value [simp]: "d < 10 \<Longrightarrow> of_char (char_of (48 + d) :: char) = 48 + (d :: nat)"
  by simp

lemma digits_value_nat_to_string [simp]: "digits_value (nat_to_string n) = n"
proof (induction n rule: nat_to_string.induct)
  case (1 n)
  show ?case
  proof (cases "n < 10")
    case True
    then show ?thesis
      by (subst nat_to_string.simps) (simp add: digits_value_def)
  next
    case False
    have "digits_value (nat_to_string n) = 10 * (n div 10) + n mod 10"
      using False "1.IH" by (subst nat_to_string.simps) (simp del: char_of_nat)
    then show ?thesis by simp
  qed
qed

lemma nat_to_string_inj [simp]: "nat_to_string m = nat_to_string n \<longleftrightarrow> m = n"
  by (metis digits_value_nat_to_string)

lemma nat_to_string_no_dash: "CHR ''-'' \<notin> set (nat_to_string n)"
proof (induction n rule: nat_to_string.induct)
  case (1 n)
  have dash: "CHR ''-'' \<noteq> char_of (48 + d)" if "d < 10" for d :: nat
  proof
    assume "CHR ''-'' = char_of (48 + d)"
    then have "of_char (CHR ''-'') = (48 + d :: nat)"
      using digit_char_value [OF that] by metis
    then show False by simp
  qed
  show ?case
    using 1 dash by (subst nat_to_string.simps) auto
qed

lemma nat_to_string_not_Nil [simp]: "nat_to_string n \<noteq> []"
  by (subst nat_to_string.simps) simp

lemma to_string_inj [simp]: "to_string i = to_string j \<longleftrightarrow> i = j"
proof -
  have "CHR ''-'' # nat_to_string m \<noteq> nat_to_string n" for m n
    using nat_to_string_no_dash [of n] by (metis list.set_intros(1))
  then show ?thesis
    by (auto simp: to_string_def) (metis nat_eq_iff not_less)+
qed

text \<open>Splitting at the first dash: two dash-free prefixes followed by a dash are equal.\<close>

lemma append_sep_inj:
  assumes "c \<notin> set a" and "c \<notin> set b" and "a @ c # x = b @ c # y"
  shows "a = b \<and> x = y"
  using assms
proof (induction a arbitrary: b)
  case Nil
  then show ?case by (cases b) auto
next
  case (Cons h a)
  then show ?case by (cases b) auto
qed

end
