(* ===== verification/Nvme_Config.thy ===== *)
theory Nvme_Config
  imports Nv_Prelude
begin

text \<open>
  The device configuration of \<^verbatim>\<open>src/src/nvme.h\<close>. The calls into libnvme and the kernel are the
  fields of \<open>nvme_lib\<close>; a call that fills an out parameter takes its old contents and returns
  the new ones, which the code keeps whether or not the call succeeded.
\<close>

record device_config =
  namespace_id :: u32
  dev_name :: string
  number_of_logical_blocks :: u64
  logical_block_size :: int

record 'w nvme_lib =
  lib_open :: "string \<Rightarrow> 'w \<Rightarrow> int \<times> 'w"
  lib_get_nsid :: "int \<Rightarrow> u32 \<Rightarrow> 'w \<Rightarrow> (int \<times> u32) \<times> 'w"
  lib_get_lbs :: "int \<Rightarrow> u32 \<Rightarrow> int \<Rightarrow> 'w \<Rightarrow> (int \<times> int) \<times> 'w"
  lib_identify_ns :: "int \<Rightarrow> u32 \<Rightarrow> 'w \<Rightarrow> (int \<times> u64) \<times> 'w"  \<comment> \<open>the field \<^verbatim>\<open>nsze\<close>\<close>
  lib_close :: "int \<Rightarrow> 'w \<Rightarrow> int \<times> 'w"

definition open_bdev :: "'w nvme_lib \<Rightarrow> string \<Rightarrow> 'w \<Rightarrow> int \<times> 'w" where
  "open_bdev lib dev w = lib_open lib dev w"

text \<open>The messages: the library's own codes from \<open>first\<close> on, the C library's below.\<close>

definition nvme_strerror :: "int \<Rightarrow> (int \<Rightarrow> string) \<Rightarrow> (int \<Rightarrow> string) \<Rightarrow> int \<Rightarrow> string" where
  "nvme_strerror first nvme_errno_to_string strerror errnum =
     (if errnum \<ge> first then nvme_errno_to_string errnum else strerror errnum)"

text \<open>
  \<open>same_ptr\<close> is the value of the comparison \<^verbatim>\<open>config.name == ""\<close>, which compares two addresses.
  Every path after the first test ends at the label \<^verbatim>\<open>ret\<close>, which returns 0.
\<close>

definition init_device_config ::
  "bool \<Rightarrow> 'w nvme_lib \<Rightarrow> device_config \<Rightarrow> 'w \<Rightarrow> (int \<times> device_config) \<times> 'w" where
  "init_device_config same_ptr lib config w =
     (if same_ptr then ((-1, config), w)
      else case open_bdev lib (dev_name config) w of (fd, w1) \<Rightarrow>
      case lib_get_nsid lib fd (namespace_id config) w1 of ((err1, nsid), w2) \<Rightarrow>
      let c1 = config\<lparr>namespace_id := nsid\<rparr> in
      if err1 \<noteq> 0 then (case lib_close lib fd w2 of (_, w3) \<Rightarrow> ((0, c1), w3))
      else case lib_get_lbs lib fd nsid (logical_block_size c1) w2 of ((err2, lbs), w3) \<Rightarrow>
      let c2 = c1\<lparr>logical_block_size := lbs\<rparr> in
      if err2 \<noteq> 0 then (case lib_close lib fd w3 of (_, w4) \<Rightarrow> ((0, c2), w4))
      else case lib_identify_ns lib fd nsid w3 of ((err3, nsze), w4) \<Rightarrow>
      if err3 \<noteq> 0 then (case lib_close lib fd w4 of (_, w5) \<Rightarrow> ((0, c2), w5))
      else let c3 = c2\<lparr>number_of_logical_blocks := nsze\<rparr> in
      case lib_close lib fd w4 of (_, w5) \<Rightarrow> ((0, c3), w5))"

section \<open>Messages\<close>

text \<open>
  What \<^verbatim>\<open>dump_config\<close> and \<^verbatim>\<open>nvme_show_status\<close> print. \<^verbatim>\<open>%d\<close> and \<^verbatim>\<open>%lld\<close> read the unsigned members as signed; \<^verbatim>\<open>%#x\<close>
  has the prefix \<^verbatim>\<open>0x\<close> unless the number is 0. The text of a status comes from the library.
\<close>

abbreviation newline :: char where "newline \<equiv> CHR 0x0A"

definition dump_config :: "device_config \<Rightarrow> string" where
  "dump_config config =
     ''device: '' @ dev_name config @ newline #
     ''namespace id: '' @ to_string (sint (namespace_id config)) @ newline #
     ''number of logical blocks: '' @ to_string (sint (number_of_logical_blocks config)) @ newline #
     ''logical block size: '' @ to_string (logical_block_size config) @ '' bytes'' @ [newline]"

definition hex_digit :: "nat \<Rightarrow> char" where
  "hex_digit d = (if d < 10 then char_of (48 + d) else char_of (87 + d))"

fun nat_to_hex :: "nat \<Rightarrow> string" where
  "nat_to_hex n = (if n < 16 then [hex_digit n] else nat_to_hex (n div 16) @ [hex_digit (n mod 16)])"

declare nat_to_hex.simps [simp del]

definition nvme_show_status :: "(u16 \<Rightarrow> string) \<Rightarrow> u16 \<Rightarrow> string" where
  "nvme_show_status nvme_status_to_string status =
     ''NVMe status: '' @ nvme_status_to_string status @ ''('' @
     (if status = 0 then ''0'' else ''0x'' @ nat_to_hex (unat status)) @ '')'' @ [newline]"

definition hex_digit_value :: "char \<Rightarrow> nat" where
  "hex_digit_value c = (if of_char c < (58 :: nat) then of_char c - 48 else of_char c - 87)"

lemma hex_digit_value_hex_digit [simp]: "d < 16 \<Longrightarrow> hex_digit_value (hex_digit d) = d"
  by (simp add: hex_digit_value_def hex_digit_def)

definition hex_value :: "string \<Rightarrow> nat" where
  "hex_value s = foldl (\<lambda>a c. 16 * a + hex_digit_value c) 0 s"

lemma hex_value_nat_to_hex [simp]: "hex_value (nat_to_hex n) = n"
proof (induction n rule: nat_to_hex.induct)
  case (1 n)
  show ?case
  proof (cases "n < 16")
    case True
    then show ?thesis by (subst nat_to_hex.simps) (simp add: hex_value_def)
  next
    case False
    then have "hex_value (nat_to_hex n) = 16 * (n div 16) + n mod 16"
      using "1.IH" by (subst nat_to_hex.simps) (simp add: hex_value_def)
    then show ?thesis by simp
  qed
qed

lemma to_string_no_newline: "newline \<notin> set (to_string i)"
proof -
  have digit: "newline \<noteq> char_of (48 + d)" if "d < 10" for d :: nat
  proof
    assume "newline = char_of (48 + d)"
    then have "of_char newline = (48 + d :: nat)" using digit_char_value [OF that] by metis
    then show False by simp
  qed
  have "newline \<notin> set (nat_to_string n)" for n
    using digit by (induction n rule: nat_to_string.induct) (subst nat_to_string.simps, auto)
  then show ?thesis by (simp add: to_string_def)
qed

lemma line_inj: "newline \<notin> set a \<Longrightarrow> newline \<notin> set b \<Longrightarrow> a @ newline # x = b @ newline # y \<longleftrightarrow> a = b \<and> x = y"
  using append_sep_inj [of newline a b x y] by blast

section \<open>Descriptors\<close>

text \<open>What the code relies on: only \<^verbatim>\<open>open\<close> and \<^verbatim>\<open>close\<close> change the set of open descriptors.\<close>

definition dev_fd_law :: "'w nvme_lib \<Rightarrow> ('w \<Rightarrow> int set) \<Rightarrow> bool" where
  "dev_fd_law lib fds \<longleftrightarrow>
     (\<forall>d w r w'. lib_open lib d w = (r, w') \<longrightarrow>
        (if r < 0 then fds w' = fds w else r \<notin> fds w \<and> fds w' = insert r (fds w))) \<and>
     (\<forall>fd n w x w'. lib_get_nsid lib fd n w = (x, w') \<longrightarrow> fds w' = fds w) \<and>
     (\<forall>fd n l w x w'. lib_get_lbs lib fd n l w = (x, w') \<longrightarrow> fds w' = fds w) \<and>
     (\<forall>fd n w x w'. lib_identify_ns lib fd n w = (x, w') \<longrightarrow> fds w' = fds w) \<and>
     (\<forall>fd w r w'. lib_close lib fd w = (r, w') \<longrightarrow> fds w' = fds w - {fd})"

lemma dev_fd_lawD:
  assumes "dev_fd_law lib fds"
  shows "lib_open lib d w = (r, w') \<Longrightarrow>
      if r < 0 then fds w' = fds w else r \<notin> fds w \<and> fds w' = insert r (fds w)"
    and "lib_get_nsid lib fd n w = (x, w') \<Longrightarrow> fds w' = fds w"
    and "lib_get_lbs lib fd n l w = (y, w') \<Longrightarrow> fds w' = fds w"
    and "lib_identify_ns lib fd n w = (z, w') \<Longrightarrow> fds w' = fds w"
    and "lib_close lib fd w = (r, w') \<Longrightarrow> fds w' = fds w - {fd}"
  using assms unfolding dev_fd_law_def by metis+

lemma init_device_config_fds_unchanged:
  assumes law: "dev_fd_law lib fds" and nonneg: "\<forall>x \<in> fds w. 0 \<le> x"
    and run: "init_device_config same_ptr lib config w = (res, w')"
  shows "fds w' = fds w"
proof (cases same_ptr)
  case True
  with run show ?thesis by (simp add: init_device_config_def)
next
  case False
  obtain fd w1 where op: "lib_open lib (dev_name config) w = (fd, w1)" by (metis prod.exhaust)
  note l = dev_fd_lawD [OF law]
  have closed: "fds v' = fds w" if "lib_close lib fd v = (r, v')" and "fds v = fds w1" for v v' r
    using l(1) [OF op] l(5) [OF that(1)] that(2) nonneg by (auto split: if_splits)
  show ?thesis
    using run False op
    by (auto simp: init_device_config_def open_bdev_def Let_def dest!: l(2-4) dest: closed
        split: prod.splits if_splits)
qed

section \<open>A concrete device\<close>

text \<open>A device for the witnesses; the world is the list of open descriptors.\<close>

definition sample_lib :: "int \<Rightarrow> int list nvme_lib" where
  "sample_lib nsid_err =
     \<lparr>lib_open = (\<lambda>_ w. (int (length w), int (length w) # removeAll (int (length w)) w)),
      lib_get_nsid = (\<lambda>_ _ w. ((nsid_err, 1), w)), lib_get_lbs = (\<lambda>_ _ _ w. ((0, 512), w)),
      lib_identify_ns = (\<lambda>_ _ w. ((0, 1000), w)), lib_close = (\<lambda>fd w. (0, removeAll fd w))\<rparr>"

definition no_config :: device_config where
  "no_config = \<lparr>namespace_id = 77, dev_name = ''/dev/nvme0n1'', number_of_logical_blocks = 88,
     logical_block_size = 99\<rparr>"

section \<open>Properties\<close>

text \<open>when the three queries succeed, \<^verbatim>\<open>init_device_config\<close> returns 0 and the configuration
  holds exactly the namespace id, the logical block size and the size of the namespace that the
  library reported for the opened device; the name is unchanged.\<close>

theorem init_device_config_ok:
  assumes "lib_open lib (dev_name config) w = (fd, w1)"
    and "lib_get_nsid lib fd (namespace_id config) w1 = ((0, nsid), w2)"
    and "lib_get_lbs lib fd nsid (logical_block_size config) w2 = ((0, lbs), w3)"
    and "lib_identify_ns lib fd nsid w3 = ((0, nsze), w4)"
  shows "fst (init_device_config False lib config w) =
     (0, \<lparr>namespace_id = nsid, dev_name = dev_name config, number_of_logical_blocks = nsze,
          logical_block_size = lbs\<rparr>)"
  using assms
  by (cases config) (simp add: init_device_config_def open_bdev_def Let_def split: prod.splits)

theorem init_device_config_ok_witness:
  "fst (init_device_config False (sample_lib 0) no_config []) =
     (0, \<lparr>namespace_id = 1, dev_name = ''/dev/nvme0n1'', number_of_logical_blocks = 1000,
          logical_block_size = 512\<rparr>)"
  using init_device_config_ok [of "sample_lib 0" no_config "[]" 0 "[0]" 1 "[0]" 512 "[0]" 1000 "[0]"]
  by (simp add: sample_lib_def no_config_def)

text \<open>a failed query is not reported: when the namespace id cannot be read,
  \<^verbatim>\<open>init_device_config\<close> still returns 0, with the block size and the number of blocks left as
  they were (uninitialised in every caller).\<close>

theorem init_device_config_hides_failure:
  assumes "lib_open lib (dev_name config) w = (fd, w1)"
    and "lib_get_nsid lib fd (namespace_id config) w1 = ((err, nsid), w2)" and "err \<noteq> 0"
  shows "fst (init_device_config False lib config w) = (0, config\<lparr>namespace_id := nsid\<rparr>)"
  using assms by (simp add: init_device_config_def open_bdev_def Let_def split: prod.splits)

theorem init_device_config_hides_failure_witness:
  "fst (init_device_config False (sample_lib (-1)) no_config []) =
     (0, \<lparr>namespace_id = 1, dev_name = ''/dev/nvme0n1'', number_of_logical_blocks = 88,
          logical_block_size = 99\<rparr>)"
  using init_device_config_hides_failure [of "sample_lib (-1)" no_config "[]" 0 "[0]" "-1" 1 "[0]"]
  by (simp add: sample_lib_def no_config_def)

text \<open>C29: on every path, those of a failed query included, \<^verbatim>\<open>init_device_config\<close> closes the
  descriptor it opened: the set of open descriptors is the one it started with.\<close>

theorem init_device_config_no_fd_leak:
  assumes "dev_fd_law lib fds" and "\<forall>x \<in> fds w. 0 \<le> x"
  shows "fds (snd (init_device_config same_ptr lib config w)) = fds w"
  using init_device_config_fds_unchanged [OF assms] by (metis prod.collapse)

theorem init_device_config_no_fd_leak_witness:
  "set (snd (init_device_config False
      ((sample_lib (-1))\<lparr>lib_open := (\<lambda>_ w. (if w = [] then 5 else -1, if w = [] then [5] else w))\<rparr>)
      no_config [])) = set []"
proof -
  let ?lib = "(sample_lib (-1))\<lparr>lib_open := (\<lambda>_ w. (if w = [] then 5 else -1, if w = [] then [5] else w))\<rparr>"
  have "dev_fd_law ?lib set" by (auto simp: dev_fd_law_def sample_lib_def)
  from init_device_config_no_fd_leak [OF this, of "[]" False no_config] show ?thesis by simp
qed

text \<open>the messages say what they report: the printed configuration determines the configuration (of
  devices whose names have no line break), although the unsigned members are printed as signed numbers,
  and the number of a status can be read back from its message.\<close>

theorem messages_faithful:
  assumes "newline \<notin> set (dev_name c)" and "newline \<notin> set (dev_name d)"
  shows "(dump_config c = dump_config d \<longleftrightarrow> c = d) \<and>
     (nvme_show_status txt s = nvme_show_status txt t \<and> txt s = txt t \<longleftrightarrow> s = t)"
proof
  have "c = d" if "dump_config c = dump_config d"
    using that assms by (cases c; cases d) (auto simp: dump_config_def line_inj to_string_no_newline intro: signed_word_eqI)
  then show "dump_config c = dump_config d \<longleftrightarrow> c = d" by blast
  have hex: "nat_to_hex m = nat_to_hex n \<longleftrightarrow> m = n" for m n by (metis hex_value_nat_to_hex)
  then show "nvme_show_status txt s = nvme_show_status txt t \<and> txt s = txt t \<longleftrightarrow> s = t"
    by (auto simp: nvme_show_status_def intro: unsigned_word_eqI split: if_splits)
qed

theorem messages_faithful_witness:
  "dump_config no_config \<noteq> dump_config (no_config\<lparr>namespace_id := 78\<rparr>)"
  using messages_faithful [of no_config "no_config\<lparr>namespace_id := 78\<rparr>"] by (simp add: no_config_def)

end
