(* ===== verification/Block_Service.thy ===== *)
theory Block_Service
  imports Nvme_Config
begin

text \<open>
  The block service: \<^verbatim>\<open>GRPCSyncServer\<close> of \<^verbatim>\<open>src/src/net.h\<close> (the handlers \<^verbatim>\<open>WriteBlock\<close>,
  \<^verbatim>\<open>ReadBlock\<close>, \<^verbatim>\<open>GetStat\<close>, \<^verbatim>\<open>ResetStat\<close>, and \<^verbatim>\<open>run\<close>). A handler takes the static
  \<^verbatim>\<open>nvme_io_args\<close> it shares between calls, the server, the request and the world, and returns the
  status, the reply, the new statics and server, and the world, or the fault with which the
  process leaves the language. Times are nanoseconds since the epoch.
\<close>

section \<open>Messages and state\<close>

record block_request =
  req_size :: int
  start_block :: int
  req_data :: "byte list"

record block_reply =
  end_block :: int

datatype grpc_status = Status_OK | Status_UNKNOWN string

record io_args =
  io_slba :: u64
  io_nlb :: u16
  io_data_len :: u32
  io_data :: "byte list"
  io_fd :: int
  io_nsid :: u32

record 'w nvme_dev =
  dev_now :: "'w \<Rightarrow> int \<times> 'w"
  dev_read :: "io_args \<Rightarrow> 'w \<Rightarrow> int \<times> 'w"
  dev_write :: "io_args \<Rightarrow> 'w \<Rightarrow> int \<times> 'w"

record sync_server =
  srv_address :: string
  srv_port :: int
  blk_fd :: int
  blk_config :: device_config
  time_on_allocation :: int
  time_on_rw :: int
  time_total :: int

text \<open>The function-local \<^verbatim>\<open>static struct nvme_io_args args\<close>: set at the first call, by that server.\<close>

type_synonym static_args = "(int \<times> u32) option"

definition static_init :: "static_args \<Rightarrow> sync_server \<Rightarrow> int \<times> u32" where
  "static_init st srv = (case st of Some a \<Rightarrow> a | None \<Rightarrow> (blk_fd srv, namespace_id (blk_config srv)))"

section \<open>The extent of a request\<close>

text \<open>
  \<^verbatim>\<open>args.nlb\<close> is a zero-based count in a 16-bit field; \<^verbatim>\<open>actual_len\<close> is an \<^verbatim>\<open>int\<close>.
\<close>

definition blk_nlb :: "int \<Rightarrow> int \<Rightarrow> u16 outcome" where
  "blk_nlb sz lbs =
     bindF (c_rem sz lbs) (\<lambda>r.
     bindF (c_div sz lbs) (\<lambda>q.
     if r \<noteq> 0 then Inr (word_of_int q)
     else bindF (checked_int (q - 1)) (\<lambda>q'. Inr (word_of_int q'))))"

definition blk_actual_len :: "u16 \<Rightarrow> int \<Rightarrow> int outcome" where
  "blk_actual_len nlb lbs = checked_int ((uint nlb + 1) * lbs)"

text \<open>
  \<^verbatim>\<open>new char[actual_len]\<close> (its contents indeterminate: \<open>fresh\<close>) and the \<^verbatim>\<open>memcpy\<close> of the whole
  of the request's data; the clipped \<^verbatim>\<open>buffer_size\<close> of the source is not used.
\<close>

definition blk_buffer :: "(nat \<Rightarrow> byte) \<Rightarrow> int \<Rightarrow> byte list \<Rightarrow> byte list outcome" where
  "blk_buffer fresh actual_len data =
     (if actual_len < 0 then Inl Bad_alloc
      else if int (length data) > actual_len then Inl Heap_overflow
      else Inr (data @ map fresh [length data..<nat actual_len]))"

section \<open>The handlers\<close>

type_synonym handler_result = "grpc_status \<times> block_reply \<times> static_args \<times> sync_server"

definition handle_block ::
  "'w nvme_dev \<Rightarrow> (io_args \<Rightarrow> 'w \<Rightarrow> int \<times> 'w) \<Rightarrow> (nat \<Rightarrow> byte) \<Rightarrow> static_args \<Rightarrow> sync_server \<Rightarrow>
     block_request \<Rightarrow> block_reply \<Rightarrow> 'w \<Rightarrow> (handler_result \<times> 'w) outcome" where
  "handle_block dev nvme_io fresh st srv request reply w =
     (case dev_now dev w of (total_start, w1) \<Rightarrow>
      case static_init st srv of (fd, nsid) \<Rightarrow>
      let lbs = logical_block_size (blk_config srv) in
      bindF (blk_nlb (req_size request) lbs) (\<lambda>nlb.
      bindF (blk_actual_len nlb lbs) (\<lambda>actual_len.
      case dev_now dev w1 of (start, w2) \<Rightarrow>
      bindF (blk_buffer fresh actual_len (req_data request)) (\<lambda>data.
      case dev_now dev w2 of (t1, w3) \<Rightarrow>
      case dev_now dev w3 of (start', w4) \<Rightarrow>
      case nvme_io \<lparr>io_slba = word_of_int (start_block request), io_nlb = nlb,
                    io_data_len = word_of_int actual_len, io_data = data,
                    io_fd = fd, io_nsid = nsid\<rparr> w4 of (err, w5) \<Rightarrow>
      case dev_now dev w5 of (t2, w6) \<Rightarrow>
      case dev_now dev w6 of (t3, w7) \<Rightarrow>
      let srv' = srv\<lparr>time_on_allocation := time_on_allocation srv + (t1 - start),
                     time_on_rw := time_on_rw srv + (t2 - start'),
                     time_total := time_total srv + (t3 - total_start)\<rparr> in
      if err \<noteq> 0 then
        Inr ((Status_UNKNOWN ''nvme write error'', reply, Some (fd, nsid), srv'), w7)
      else bindF (checked_int (start_block request + uint nlb)) (\<lambda>e.
        Inr ((Status_OK, reply\<lparr>end_block := e\<rparr>, Some (fd, nsid), srv'), w7))))))"

definition ReadBlock where
  "ReadBlock dev = handle_block dev (dev_read dev)"

definition WriteBlock where
  "WriteBlock dev = handle_block dev (dev_write dev)"

text \<open>\<^verbatim>\<open>duration_cast<milliseconds>\<close> truncates towards zero.\<close>

definition to_ms :: "int \<Rightarrow> int" where
  "to_ms ns = ns sdiv 1000000"

fun render_stat :: "(string \<times> int) list \<Rightarrow> string" where
  "render_stat [] = []"
| "render_stat ((label, ns) # rest) =
     label @ to_string (to_ms ns) @ '' ms'' @ [CHR 0x0A] @ render_stat rest"

definition GetStat :: "sync_server \<Rightarrow> grpc_status \<times> string" where
  "GetStat srv = (Status_OK, render_stat
     [(''time on allocation is '', time_on_allocation srv), (''time on writes is '', time_on_rw srv),
      (''total time on server is '', time_total srv)])"

definition ResetStat :: "sync_server \<Rightarrow> grpc_status \<times> sync_server" where
  "ResetStat srv = (Status_OK, srv\<lparr>time_on_allocation := 0, time_on_rw := 0, time_total := 0\<rparr>)"

text \<open>
  The constructor opens the device and reads its configuration only when the open succeeded;
  \<^verbatim>\<open>config0\<close> is the indeterminate initial contents of the member.
\<close>

definition GRPCSyncServer ::
  "'w nvme_lib \<Rightarrow> device_config \<Rightarrow> string \<Rightarrow> int \<Rightarrow> string \<Rightarrow> 'w \<Rightarrow> sync_server \<times> 'w" where
  "GRPCSyncServer lib config0 addr port blk_device w =
     (case lib_open lib blk_device w of (fd, w1) \<Rightarrow>
      let srv = \<lparr>srv_address = addr, srv_port = port, blk_fd = fd, blk_config = config0,
                 time_on_allocation = 0, time_on_rw = 0, time_total = 0\<rparr> in
      if fd < 0 then (srv, w1)
      else case init_device_config False lib (config0\<lparr>dev_name := blk_device\<rparr>) w1 of ((_, c), w2) \<Rightarrow>
        (srv\<lparr>blk_config := c\<rparr>, w2))"

text \<open>\<^verbatim>\<open>run\<close> refuses to start without a device; otherwise it serves at the address it prints.\<close>

definition sync_run :: "(string \<Rightarrow> 'w \<Rightarrow> 'w) \<Rightarrow> sync_server \<Rightarrow> 'w \<Rightarrow> int \<times> 'w" where
  "sync_run serve srv w =
     (if blk_fd srv < 0 then (-1, w)
      else (0, serve (srv_address srv @ '':'' @ to_string (srv_port srv)) w))"

section \<open>The extent: rounding up, and where it wraps\<close>

lemma blk_nlb_pos:
  assumes "is_int sz" and "0 < sz" and "0 < lbs"
  shows "blk_nlb sz lbs = Inr (word_of_int (ceil_div sz lbs - 1))"
proof -
  have "0 \<le> sz div lbs" and "sz div lbs \<le> sz"
    using assms div_le_self_int by (auto simp: pos_imp_zdiv_nonneg_iff)
  then have "is_int (sz div lbs - 1)" using assms(1) by (auto simp: is_int_def)
  then show ?thesis
    using assms by (simp add: blk_nlb_def c_rem_pos c_div_pos ceil_div_cases checked_int_def)
qed

text \<open>
  The requests the block protocol is made for: a positive size that needs at most \<open>2 ^ 16\<close> blocks,
  whose length in bytes is an \<^verbatim>\<open>int\<close>, and a last block whose number is one.
\<close>

definition wf_request :: "block_request \<Rightarrow> int \<Rightarrow> bool" where
  "wf_request rq lbs \<longleftrightarrow>
     is_int (req_size rq) \<and> 0 < req_size rq \<and> 0 < lbs \<and> ceil_div (req_size rq) lbs \<le> 65536 \<and>
     is_int (ceil_div (req_size rq) lbs * lbs) \<and> 0 \<le> start_block rq \<and>
     is_int (start_block rq + ceil_div (req_size rq) lbs - 1)"

definition nblocks :: "block_request \<Rightarrow> int \<Rightarrow> nat" where
  "nblocks rq lbs = nat (ceil_div (req_size rq) lbs)"

lemma wf_request_extent:
  assumes "wf_request rq lbs"
  shows "blk_nlb (req_size rq) lbs = Inr (word_of_int (ceil_div (req_size rq) lbs - 1))"
    and "uint (word_of_int (ceil_div (req_size rq) lbs - 1) :: u16) = ceil_div (req_size rq) lbs - 1"
    and "blk_actual_len (word_of_int (ceil_div (req_size rq) lbs - 1)) lbs
           = Inr (ceil_div (req_size rq) lbs * lbs)"
    and "1 \<le> ceil_div (req_size rq) lbs"
proof -
  show one: "1 \<le> ceil_div (req_size rq) lbs"
    using assms ceil_div_bounds(1) by (auto simp: wf_request_def)
  show "blk_nlb (req_size rq) lbs = Inr (word_of_int (ceil_div (req_size rq) lbs - 1))"
    using assms blk_nlb_pos by (auto simp: wf_request_def)
  show u: "uint (word_of_int (ceil_div (req_size rq) lbs - 1) :: u16) = ceil_div (req_size rq) lbs - 1"
    using assms one by (simp add: wf_request_def uint16_pred)
  show "blk_actual_len (word_of_int (ceil_div (req_size rq) lbs - 1)) lbs
           = Inr (ceil_div (req_size rq) lbs * lbs)"
    using assms u unfolding blk_actual_len_def wf_request_def by simp
qed

text \<open>The arguments that a well-formed request gives the device.\<close>

definition blk_args :: "(nat \<Rightarrow> byte) \<Rightarrow> int \<times> u32 \<Rightarrow> block_request \<Rightarrow> int \<Rightarrow> io_args" where
  "blk_args fresh fn rq lbs =
     \<lparr>io_slba = word_of_int (start_block rq), io_nlb = word_of_int (ceil_div (req_size rq) lbs - 1),
      io_data_len = word_of_int (ceil_div (req_size rq) lbs * lbs),
      io_data = req_data rq @ map fresh [length (req_data rq)..<nat (ceil_div (req_size rq) lbs * lbs)],
      io_fd = fst fn, io_nsid = snd fn\<rparr>"

lemma handle_block_run:
  assumes wf: "wf_request rq (logical_block_size (blk_config srv))"
    and fits: "int (length (req_data rq)) \<le>
       ceil_div (req_size rq) (logical_block_size (blk_config srv)) * logical_block_size (blk_config srv)"
  obtains t0 w1 t1 w2 t2 w3 t3 w4 err w5 t4 w6 t5 w7 srv' where
    "dev_now dev w = (t0, w1)" "dev_now dev w1 = (t1, w2)" "dev_now dev w2 = (t2, w3)"
    "dev_now dev w3 = (t3, w4)"
    "nvme_io (blk_args fresh (static_init st srv) rq (logical_block_size (blk_config srv))) w4 = (err, w5)"
    "dev_now dev w5 = (t4, w6)" "dev_now dev w6 = (t5, w7)"
    "srv' = srv\<lparr>time_on_allocation := time_on_allocation srv + (t2 - t1),
                time_on_rw := time_on_rw srv + (t4 - t3), time_total := time_total srv + (t5 - t0)\<rparr>"
    "handle_block dev nvme_io fresh st srv rq rp w =
       (if err \<noteq> 0
        then Inr ((Status_UNKNOWN ''nvme write error'', rp, Some (static_init st srv), srv'), w7)
        else Inr ((Status_OK, rp\<lparr>end_block := start_block rq +
               ceil_div (req_size rq) (logical_block_size (blk_config srv)) - 1\<rparr>,
               Some (static_init st srv), srv'), w7))"
proof -
  let ?lbs = "logical_block_size (blk_config srv)"
  obtain t0 w1 where c0: "dev_now dev w = (t0, w1)" by (metis prod.exhaust)
  obtain t1 w2 where c1: "dev_now dev w1 = (t1, w2)" by (metis prod.exhaust)
  obtain t2 w3 where c2: "dev_now dev w2 = (t2, w3)" by (metis prod.exhaust)
  obtain t3 w4 where c3: "dev_now dev w3 = (t3, w4)" by (metis prod.exhaust)
  obtain err w5 where io: "nvme_io (blk_args fresh (static_init st srv) rq ?lbs) w4 = (err, w5)"
    by (metis prod.exhaust)
  obtain t4 w6 where c4: "dev_now dev w5 = (t4, w6)" by (metis prod.exhaust)
  obtain t5 w7 where c5: "dev_now dev w6 = (t5, w7)" by (metis prod.exhaust)
  obtain fd nsid where st: "static_init st srv = (fd, nsid)" by (metis prod.exhaust)
  note ext = wf_request_extent [OF wf]
  have pos: "\<not> ceil_div (req_size rq) ?lbs * ?lbs < 0"
    using ext(4) wf by (simp add: wf_request_def not_less)
  have buf: "blk_buffer fresh (ceil_div (req_size rq) ?lbs * ?lbs) (req_data rq) =
      Inr (io_data (blk_args fresh (static_init st srv) rq ?lbs))"
    using fits pos by (simp add: blk_buffer_def blk_args_def)
  have e: "checked_int (start_block rq + (ceil_div (req_size rq) ?lbs - 1)) =
      Inr (start_block rq + ceil_div (req_size rq) ?lbs - 1)"
    using wf by (simp add: wf_request_def algebra_simps)
  have "handle_block dev nvme_io fresh st srv rq rp w =
     (if err \<noteq> 0
        then Inr ((Status_UNKNOWN ''nvme write error'', rp, Some (static_init st srv),
               srv\<lparr>time_on_allocation := time_on_allocation srv + (t2 - t1),
                time_on_rw := time_on_rw srv + (t4 - t3), time_total := time_total srv + (t5 - t0)\<rparr>), w7)
        else Inr ((Status_OK, rp\<lparr>end_block := start_block rq + ceil_div (req_size rq) ?lbs - 1\<rparr>,
               Some (static_init st srv),
               srv\<lparr>time_on_allocation := time_on_allocation srv + (t2 - t1),
                time_on_rw := time_on_rw srv + (t4 - t3), time_total := time_total srv + (t5 - t0)\<rparr>), w7))"
    using io st unfolding handle_block_def c0 c1 Let_def prod.case ext(1,3) bindF_simps buf c2 c3
    by (simp add: blk_args_def c4 c5 ext(2) e [unfolded checked_int_Inr] e del: of_int_diff)
  then show thesis by (rule that [OF c0 c1 c2 c3 io c4 c5 refl])
qed

section \<open>What the handlers rely on\<close>

text \<open>
  A successful write command stores its buffer in the \<open>nlb + 1\<close> blocks from \<open>slba\<close> on and changes
  no other block; reading the clock changes none.
\<close>

definition nvme_write_law :: "'w nvme_dev \<Rightarrow> nat \<Rightarrow> ('w \<Rightarrow> nat \<Rightarrow> byte list) \<Rightarrow> bool" where
  "nvme_write_law dev lbs blocks \<longleftrightarrow>
     (\<forall>w t w'. dev_now dev w = (t, w') \<longrightarrow> blocks w' = blocks w) \<and>
     (\<forall>a w w'. dev_write dev a w = (0, w') \<longrightarrow>
        blocks w' = (\<lambda>b. if unat (io_slba a) \<le> b \<and> b \<le> unat (io_slba a) + unat (io_nlb a)
                        then take lbs (drop ((b - unat (io_slba a)) * lbs) (io_data a))
                        else blocks w b))"

lemma nvme_write_lawD:
  assumes "nvme_write_law dev lbs blocks"
  shows "dev_now dev w = (t, w') \<Longrightarrow> blocks w' = blocks w"
    and "dev_write dev a w = (0, w') \<Longrightarrow>
       blocks w' = (\<lambda>b. if unat (io_slba a) \<le> b \<and> b \<le> unat (io_slba a) + unat (io_nlb a)
                        then take lbs (drop ((b - unat (io_slba a)) * lbs) (io_data a))
                        else blocks w b)"
proof -
  show "dev_now dev w = (t, w') \<Longrightarrow> blocks w' = blocks w"
    using assms unfolding nvme_write_law_def by blast
  show "dev_write dev a w = (0, w') \<Longrightarrow>
       blocks w' = (\<lambda>b. if unat (io_slba a) \<le> b \<and> b \<le> unat (io_slba a) + unat (io_nlb a)
                        then take lbs (drop ((b - unat (io_slba a)) * lbs) (io_data a))
                        else blocks w b)"
    using assms unfolding nvme_write_law_def by blast
qed

text \<open>The clock does not run backwards.\<close>

definition clock_law :: "'w nvme_dev \<Rightarrow> ('w \<Rightarrow> int) \<Rightarrow> bool" where
  "clock_law dev clk \<longleftrightarrow>
     (\<forall>w t w'. dev_now dev w = (t, w') \<longrightarrow> t = clk w \<and> clk w \<le> clk w') \<and>
     (\<forall>a w r w'. dev_write dev a w = (r, w') \<longrightarrow> clk w \<le> clk w') \<and>
     (\<forall>a w r w'. dev_read dev a w = (r, w') \<longrightarrow> clk w \<le> clk w')"

lemma clock_now: "clock_law dev clk \<Longrightarrow> dev_now dev w = (t, w') \<Longrightarrow> t = clk w \<and> clk w \<le> clk w'"
  unfolding clock_law_def by blast

definition time_inv :: "sync_server \<Rightarrow> bool" where
  "time_inv srv \<longleftrightarrow> 0 \<le> time_on_allocation srv \<and> 0 \<le> time_on_rw srv \<and>
     time_on_allocation srv + time_on_rw srv \<le> time_total srv"

text \<open>A handler that returns has made its six clock calls in order around the command.\<close>

lemma handle_block_times:
  assumes "handle_block dev nvme_io fresh st srv rq rp w = Inr ((s, rp', st', srv'), w')"
  obtains t0 w1 t1 w2 t2 w3 t3 w4 args err w5 t4 w6 t5 where
    "dev_now dev w = (t0, w1)" "dev_now dev w1 = (t1, w2)" "dev_now dev w2 = (t2, w3)"
    "dev_now dev w3 = (t3, w4)" "nvme_io args w4 = (err, w5)" "dev_now dev w5 = (t4, w6)"
    "dev_now dev w6 = (t5, w')" "st' = Some (static_init st srv)"
    "srv' = srv\<lparr>time_on_allocation := time_on_allocation srv + (t2 - t1),
                time_on_rw := time_on_rw srv + (t4 - t3), time_total := time_total srv + (t5 - t0)\<rparr>"
  using assms
  unfolding handle_block_def run_iffs
  by (elim exE conjE) (auto simp: bindF_eq_Inr split: if_splits)

lemma handle_block_time_inv:
  assumes clk: "clock_law dev clk" and io: "\<And>a w r w'. nvme_io a w = (r, w') \<Longrightarrow> clk w \<le> clk w'"
    and inv: "time_inv srv"
    and run: "handle_block dev nvme_io fresh st srv rq rp w = Inr ((s, rp', st', srv'), w')"
  shows "time_inv srv'"
proof -
  from handle_block_times [OF run] obtain t0 w1 t1 w2 t2 w3 t3 w4 args err w5 t4 w6 t5 where
    c: "dev_now dev w = (t0, w1)" "dev_now dev w1 = (t1, w2)" "dev_now dev w2 = (t2, w3)"
    "dev_now dev w3 = (t3, w4)" "dev_now dev w5 = (t4, w6)" "dev_now dev w6 = (t5, w')"
    and i: "nvme_io args w4 = (err, w5)"
    and srv': "srv' = srv\<lparr>time_on_allocation := time_on_allocation srv + (t2 - t1),
      time_on_rw := time_on_rw srv + (t4 - t3), time_total := time_total srv + (t5 - t0)\<rparr>" .
  have "t0 \<le> t1" "t1 \<le> t2" "t2 \<le> t3" "t3 \<le> t4" "t4 \<le> t5"
    using c [THEN clock_now [OF clk]] io [OF i] by auto
  with inv show ?thesis by (simp add: time_inv_def srv')
qed

text \<open>The blocks after a write that was answered OK.\<close>

lemma write_block_effect:
  assumes wf: "wf_request rq (logical_block_size (blk_config srv))"
    and fits: "int (length (req_data rq)) \<le>
       ceil_div (req_size rq) (logical_block_size (blk_config srv)) * logical_block_size (blk_config srv)"
    and law: "nvme_write_law dev (nat (logical_block_size (blk_config srv))) blocks"
    and run: "WriteBlock dev fresh st srv rq rp w = Inr ((Status_OK, rp', st', srv'), w')"
  defines "lbs \<equiv> logical_block_size (blk_config srv)"
  shows "end_block rp' = start_block rq + ceil_div (req_size rq) lbs - 1"
    and "blocks w' = (\<lambda>b. if nat (start_block rq) \<le> b \<and> b < nat (start_block rq) + nblocks rq lbs
      then take (nat lbs) (drop ((b - nat (start_block rq)) * nat lbs)
             (io_data (blk_args fresh (static_init st srv) rq lbs))) else blocks w b)"
proof -
  let ?a = "blk_args fresh (static_init st srv) rq lbs"
  note ext = wf_request_extent [OF wf, folded lbs_def]
  have "0 \<le> start_block rq" and "start_block rq < 2 ^ 64"
    using wf ext(4) by (auto simp: wf_request_def is_int_def lbs_def)
  then have slba: "unat (io_slba ?a) = nat (start_block rq)"
    by (simp add: blk_args_def unat_eq_nat_uint uint_word_of_int_eq take_bit_int_eq_self)
  have nlb: "unat (io_nlb ?a) = nblocks rq lbs - 1"
    using ext(2) by (simp add: blk_args_def unat_eq_nat_uint nblocks_def nat_diff_distrib del: of_int_diff)
  have n1: "1 \<le> nblocks rq lbs" using ext(4) by (simp add: nblocks_def)
  show "end_block rp' = start_block rq + ceil_div (req_size rq) lbs - 1"
    by (rule handle_block_run [OF wf fits, of dev w "dev_write dev" fresh st rp])
      (use run in \<open>auto simp: WriteBlock_def lbs_def split: if_splits\<close>)
  show "blocks w' = (\<lambda>b. if nat (start_block rq) \<le> b \<and> b < nat (start_block rq) + nblocks rq lbs
      then take (nat lbs) (drop ((b - nat (start_block rq)) * nat lbs) (io_data ?a)) else blocks w b)"
  proof (rule handle_block_run [OF wf fits, of dev w "dev_write dev" fresh st rp])
    fix t0 w1 t1 w2 t2 w3 t3 w4 err w5 t4 w6 t5 w7 srv1
    assume c: "dev_now dev w = (t0, w1)" "dev_now dev w1 = (t1, w2)" "dev_now dev w2 = (t2, w3)"
        "dev_now dev w3 = (t3, w4)" "dev_now dev w5 = (t4, w6)" "dev_now dev w6 = (t5, w7)"
      and io: "dev_write dev (blk_args fresh (static_init st srv) rq (logical_block_size (blk_config srv))) w4
          = (err, w5)"
      and res: "handle_block dev (dev_write dev) fresh st srv rq rp w =
       (if err \<noteq> 0
        then Inr ((Status_UNKNOWN ''nvme write error'', rp, Some (static_init st srv), srv1), w7)
        else Inr ((Status_OK, rp\<lparr>end_block := start_block rq +
               ceil_div (req_size rq) (logical_block_size (blk_config srv)) - 1\<rparr>,
               Some (static_init st srv), srv1), w7))"
    have err: "err = 0" and w': "w' = w7"
      using res run by (auto simp: WriteBlock_def split: if_splits)
    have "blocks w7 = blocks w5" "blocks w4 = blocks w"
      using c [THEN nvme_write_lawD(1) [OF law]] by simp_all
    moreover have "blocks w5 = (\<lambda>b. if nat (start_block rq) \<le> b \<and> b \<le> nat (start_block rq) + (nblocks rq lbs - 1)
      then take (nat lbs) (drop ((b - nat (start_block rq)) * nat lbs) (io_data ?a)) else blocks w4 b)"
      using nvme_write_lawD(2) [OF law io [unfolded err], folded lbs_def] by (simp only: slba nlb)
    ultimately show ?thesis using n1 w' by (auto simp: fun_eq_iff)
  qed
qed

section \<open>The contract of the statistics calls\<close>

text \<open>
  Both servers answer \<^verbatim>\<open>GetStat\<close> with labelled counters and zero them in \<^verbatim>\<open>ResetStat\<close>: a
  report is a function of the counters, so what a client reads after a reset depends only on what
  the server did since.
\<close>

locale stat_service =
  fixes labels :: "string list" and counters :: "'s \<Rightarrow> int list"
    and get_stat :: "'s \<Rightarrow> string" and reset_stat :: "'s \<Rightarrow> 's"
  assumes counters_length: "length (counters s) = length labels"
    and get_stat_render: "get_stat s = render_stat (zip labels (counters s))"
    and reset_counters: "counters (reset_stat s) = map (\<lambda>_. 0) labels"
begin

lemma report_after_reset:
  "get_stat (reset_stat s) = render_stat (map (\<lambda>l. (l, 0)) labels)"
  by (simp add: get_stat_render reset_counters zip_map2 zip_same_conv_map comp_def)

lemma report_since_reset:
  assumes "\<And>s. counters (work s) = map2 (+) (counters s) deltas"
  shows "get_stat (work (reset_stat s)) = get_stat (work (reset_stat s'))"
  by (simp add: get_stat_render assms reset_counters)

end

definition sync_counters :: "sync_server \<Rightarrow> int list" where
  "sync_counters srv = [time_on_allocation srv, time_on_rw srv, time_total srv]"

interpretation sync_stat: stat_service
  "[''time on allocation is '', ''time on writes is '', ''total time on server is '']"
  sync_counters "\<lambda>srv. snd (GetStat srv)" "\<lambda>srv. snd (ResetStat srv)"
  by unfold_locales (simp_all add: sync_counters_def GetStat_def ResetStat_def)

section \<open>A concrete device\<close>

text \<open>
  A device for the witnesses, with two-byte blocks: the world is the time and the contents of the
  blocks; every command succeeds and takes five time units.
\<close>

type_synonym mem_world = "int \<times> (nat \<Rightarrow> byte list)"

definition mem_dev :: "mem_world nvme_dev" where
  "mem_dev = \<lparr>dev_now = (\<lambda>(t, m). (t, (t + 1, m))), dev_read = (\<lambda>a (t, m). (0, (t + 5, m))),
     dev_write = (\<lambda>a (t, m). (0, (t + 5,
       \<lambda>b. if unat (io_slba a) \<le> b \<and> b \<le> unat (io_slba a) + unat (io_nlb a)
           then take 2 (drop ((b - unat (io_slba a)) * 2) (io_data a)) else m b)))\<rparr>"

definition mem_server :: sync_server where
  "mem_server = \<lparr>srv_address = ''0.0.0.0'', srv_port = 9876, blk_fd = 3,
     blk_config = \<lparr>namespace_id = 1, dev_name = ''/dev/nvme0n1'', number_of_logical_blocks = 100,
       logical_block_size = 2\<rparr>, time_on_allocation = 0, time_on_rw = 0, time_total = 0\<rparr>"

definition mem_request :: block_request where
  "mem_request = \<lparr>req_size = 3, start_block = 7, req_data = [10, 11, 12]\<rparr>"

lemma mem_laws: "nvme_write_law mem_dev 2 snd" "clock_law mem_dev fst"
  by (auto simp: nvme_write_law_def clock_law_def mem_dev_def)

lemma mem_request_wf: "wf_request mem_request (logical_block_size (blk_config mem_server))"
  by (simp add: wf_request_def mem_request_def mem_server_def is_int_def ceil_div_def)

section \<open>Properties\<close>

text \<open>the extent computed for a request of positive size is the least whole number of logical
  blocks that holds it: \<^verbatim>\<open>actual_len\<close> is \<open>nlb + 1\<close> blocks, at least the size, and one block less
  would be too short.\<close>

theorem blk_extent_minimal:
  assumes "is_int sz" and "0 < sz" and "0 < lbs" and "ceil_div sz lbs \<le> 65536"
    and "is_int (ceil_div sz lbs * lbs)"
  shows "\<exists>nlb len. blk_nlb sz lbs = Inr nlb \<and> blk_actual_len nlb lbs = Inr len \<and>
           len = (uint nlb + 1) * lbs \<and> sz \<le> len \<and> uint nlb * lbs < sz"
proof -
  have wf: "wf_request \<lparr>req_size = sz, start_block = 0, req_data = []\<rparr> lbs"
    using assms ceil_div_bounds(1) [OF assms(2,3)] by (auto simp: wf_request_def is_int_def)
  note ext = wf_request_extent [OF wf, simplified block_request.simps]
  show ?thesis
    using ext ceil_div_bounds(2,3) [OF assms(2,3)] by (metis diff_add_cancel)
qed

theorem blk_extent_minimal_witness:
  "\<exists>nlb len. blk_nlb 1025 512 = Inr nlb \<and> blk_actual_len nlb 512 = Inr len \<and>
           len = (uint nlb + 1) * 512 \<and> 1025 \<le> len \<and> uint nlb * 512 < 1025"
  using blk_extent_minimal [of 1025 512] by (simp add: is_int_def ceil_div_def)

text \<open>a request of size 0 asks for the largest extent there is: the zero-based block count
  wraps to 65535 and the handler allocates and transfers 65536 blocks.\<close>

theorem blk_zero_size_wraps:
  assumes "0 < lbs" and "lbs \<le> 32767"
  shows "blk_nlb 0 lbs = Inr 65535 \<and> blk_actual_len 65535 lbs = Inr (65536 * lbs)"
  using assms by (simp add: blk_nlb_def blk_actual_len_def c_eval)

theorem blk_zero_size_wraps_witness:
  "blk_nlb 0 512 = Inr 65535 \<and> blk_actual_len 65535 512 = Inr 33554432"
  using blk_zero_size_wraps [of 512] by simp

text \<open>C28: memory safety of \<^verbatim>\<open>WriteBlock\<close>: on a well-formed request the handler overruns the heap
  block exactly when the request carries more data than its \<^verbatim>\<open>size\<close> rounded up to blocks, and
  otherwise it returns; the clipped \<^verbatim>\<open>buffer_size\<close> that the source computes protects nothing.\<close>

theorem write_block_memory_safe:
  assumes "wf_request rq (logical_block_size (blk_config srv))"
  shows "if int (length (req_data rq)) >
            ceil_div (req_size rq) (logical_block_size (blk_config srv)) *
              logical_block_size (blk_config srv)
         then WriteBlock dev fresh st srv rq rp w = Inl Heap_overflow
         else \<exists>res. WriteBlock dev fresh st srv rq rp w = Inr res"
proof (cases "int (length (req_data rq)) > ceil_div (req_size rq) (logical_block_size (blk_config srv)) *
              logical_block_size (blk_config srv)")
  case True
  note ext = wf_request_extent [OF assms]
  have "\<not> ceil_div (req_size rq) (logical_block_size (blk_config srv)) *
      logical_block_size (blk_config srv) < 0"
    using ext(4) assms by (simp add: wf_request_def not_less)
  with True show ?thesis
    by (simp add: WriteBlock_def handle_block_def Let_def ext blk_buffer_def del: of_int_diff
        split: prod.splits)
next
  case False
  then have "int (length (req_data rq)) \<le> ceil_div (req_size rq) (logical_block_size (blk_config srv)) *
              logical_block_size (blk_config srv)" by simp
  from handle_block_run [OF assms this, of dev w "dev_write dev" fresh st rp] False show ?thesis
    by (metis WriteBlock_def)
qed

theorem write_block_memory_safe_witness:
  "if int (length [10 :: byte, 11, 12]) > ceil_div 3 2 * 2
   then WriteBlock mem_dev (\<lambda>_. 0) None mem_server mem_request \<lparr>end_block = 0\<rparr> (0, \<lambda>_. []) = Inl Heap_overflow
   else \<exists>res. WriteBlock mem_dev (\<lambda>_. 0) None mem_server mem_request \<lparr>end_block = 0\<rparr> (0, \<lambda>_. []) = Inr res"
  using write_block_memory_safe [OF mem_request_wf, of mem_dev "\<lambda>_. 0" None "\<lparr>end_block = 0\<rparr>" "(0, \<lambda>_. [])"]
  by (simp add: mem_request_def mem_server_def)

text \<open>C2: a \<^verbatim>\<open>WriteBlock\<close> that answers OK has stored the request: the blocks from \<^verbatim>\<open>start_block\<close>
  to the returned \<^verbatim>\<open>end_block\<close>, read in order, begin with exactly the request's data and are as
  many as its size needs, and every other block is unchanged.\<close>

theorem write_block_persists:
  assumes wf: "wf_request rq (logical_block_size (blk_config srv))"
    and fits: "int (length (req_data rq)) \<le>
       ceil_div (req_size rq) (logical_block_size (blk_config srv)) * logical_block_size (blk_config srv)"
    and law: "nvme_write_law dev (nat (logical_block_size (blk_config srv))) blocks"
    and run: "WriteBlock dev fresh st srv rq rp w = Inr ((Status_OK, rp', st', srv'), w')"
  shows "end_block rp' = start_block rq + int (nblocks rq (logical_block_size (blk_config srv))) - 1 \<and>
     take (length (req_data rq)) (concat (map (blocks w')
       [nat (start_block rq)..<nat (start_block rq) + nblocks rq (logical_block_size (blk_config srv))]))
       = req_data rq \<and>
     (\<forall>b. b < nat (start_block rq) \<or> int b > end_block rp' \<longrightarrow> blocks w' b = blocks w b)"
proof -
  let ?lbs = "logical_block_size (blk_config srv)" and ?s = "nat (start_block rq)"
  let ?n = "nblocks rq ?lbs" and ?d = "io_data (blk_args fresh (static_init st srv) rq ?lbs)"
  note e = write_block_effect [OF assms]
  have n: "int ?n = ceil_div (req_size rq) ?lbs"
    using wf_request_extent(4) [OF wf] by (simp add: nblocks_def)
  have "map (blocks w') [?s..<?s + ?n] = map (\<lambda>i. take (nat ?lbs) (drop (i * nat ?lbs) ?d)) [0..<?n]"
    by (rule nth_equalityI) (auto simp: e(2))
  then have "concat (map (blocks w') [?s..<?s + ?n]) = take (?n * nat ?lbs) ?d"
    by (simp only: concat_blocks)
  moreover have "length (req_data rq) \<le> ?n * nat ?lbs"
  proof -
    have "int (length (req_data rq)) \<le> int (?n * nat ?lbs)"
      using fits n wf by (simp add: wf_request_def)
    then show ?thesis by (simp only: of_nat_le_iff)
  qed
  moreover have "take (length (req_data rq)) ?d = req_data rq"
    by (simp add: blk_args_def)
  ultimately show ?thesis
    using e n wf by (auto simp: min_def wf_request_def)
qed

theorem write_block_persists_witness:
  "end_block \<lparr>end_block = 8\<rparr> = 7 + int 2 - 1 \<and>
   (\<exists>st' srv' w'. WriteBlock mem_dev (\<lambda>_. 99) None mem_server mem_request \<lparr>end_block = 0\<rparr> (0, \<lambda>_. [])
      = Inr ((Status_OK, \<lparr>end_block = 8\<rparr>, st', srv'), w') \<and>
      take 3 (concat (map (snd w') [7..<9])) = [10, 11, 12] \<and> snd w' 9 = [])"
proof -
  have ex: "\<exists>st' srv' w'. WriteBlock mem_dev (\<lambda>_. 99) None mem_server mem_request \<lparr>end_block = 0\<rparr> (0, \<lambda>_. [])
      = Inr ((Status_OK, \<lparr>end_block = 8\<rparr>, st', srv'), w')"
    by (simp add: WriteBlock_def handle_block_def mem_dev_def mem_server_def mem_request_def
        static_init_def blk_nlb_def blk_actual_len_def blk_buffer_def c_eval)
  then obtain st' srv' w' where
    run: "WriteBlock mem_dev (\<lambda>_. 99) None mem_server mem_request \<lparr>end_block = 0\<rparr> (0, \<lambda>_. [])
      = Inr ((Status_OK, \<lparr>end_block = 8\<rparr>, st', srv'), w')" by blast
  have nb: "nblocks mem_request (logical_block_size (blk_config mem_server)) = 2"
    by (simp add: nblocks_def mem_request_def mem_server_def ceil_div_def)
  have fits: "int (length (req_data mem_request)) \<le>
      ceil_div (req_size mem_request) (logical_block_size (blk_config mem_server)) *
      logical_block_size (blk_config mem_server)"
    by (simp add: mem_request_def mem_server_def ceil_div_def)
  have law: "nvme_write_law mem_dev (nat (logical_block_size (blk_config mem_server))) snd"
    using mem_laws by (simp add: mem_server_def)
  from write_block_persists [OF mem_request_wf fits law run] run show ?thesis
    unfolding nb by (auto simp: mem_request_def numeral_3_eq_3)
qed

text \<open>the server's counters are consistent: whatever requests a server handles, well formed or
  not, the time it accounts to allocation and to the device never exceeds its total time.\<close>

theorem write_block_time_inv:
  assumes "clock_law dev clk" and "time_inv srv"
    and "WriteBlock dev fresh st srv rq rp w = Inr ((s, rp', st', srv'), w')"
  shows "time_inv srv'"
  using handle_block_time_inv [OF assms(1) _ assms(2) assms(3) [unfolded WriteBlock_def]] assms(1)
  by (auto simp: clock_law_def)

theorem write_block_time_inv_witness:
  "\<exists>srv'. time_inv srv' \<and> time_total srv' = 10 \<and> time_on_rw srv' = 6"
proof -
  obtain st' w' srv' where
    run: "WriteBlock mem_dev (\<lambda>_. 99) None mem_server mem_request \<lparr>end_block = 0\<rparr> (0, \<lambda>_. [])
      = Inr ((Status_OK, \<lparr>end_block = 8\<rparr>, st', srv'), w')" and t: "time_total srv' = 10" "time_on_rw srv' = 6"
    by (simp add: WriteBlock_def handle_block_def mem_dev_def mem_server_def mem_request_def
        static_init_def blk_nlb_def blk_actual_len_def blk_buffer_def c_eval)
  have "time_inv mem_server" by (simp add: time_inv_def mem_server_def)
  from write_block_time_inv [OF mem_laws(2) this run] t show ?thesis by blast
qed

text \<open>the \<^verbatim>\<open>static\<close> arguments of a handler belong to the process, not to the server: once one
  server has handled a \<^verbatim>\<open>WriteBlock\<close>, every later call writes to that server's device, whatever
  device the called server opened.\<close>

theorem write_block_static_device:
  assumes "WriteBlock dev fresh None srv1 rq1 rp1 w1 = Inr ((s, rp1', st, srv1'), w1')"
  shows "st = Some (blk_fd srv1, namespace_id (blk_config srv1)) \<and>
     map_sum id (\<lambda>((s, rp, st, srv), w). (s, rp, st, w))
       (WriteBlock dev fresh st (srv2\<lparr>blk_fd := other\<rparr>) rq rp w) =
     map_sum id (\<lambda>((s, rp, st, srv), w). (s, rp, st, w))
       (WriteBlock dev fresh st (srv2\<lparr>blk_fd := blk_fd srv1\<rparr>) rq rp w)"
proof -
  have st: "st = Some (blk_fd srv1, namespace_id (blk_config srv1))"
    using handle_block_times [OF assms [unfolded WriteBlock_def]] by (auto simp: static_init_def)
  have same: "map_sum id (\<lambda>((s, rp, st, srv), w). (s, rp, st, w))
       (handle_block dev io fresh (Some a) (srv2\<lparr>blk_fd := x\<rparr>) rq rp w) =
     map_sum id (\<lambda>((s, rp, st, srv), w). (s, rp, st, w))
       (handle_block dev io fresh (Some a) (srv2\<lparr>blk_fd := y\<rparr>) rq rp w)" for io a x y
    by (auto simp: handle_block_def static_init_def Let_def bindF_def checked_int_def split: prod.splits sum.splits)
  show ?thesis using st same by (simp add: WriteBlock_def)
qed

theorem write_block_static_device_witness:
  "\<exists>st. st = Some (3, 1) \<and>
     map_sum id (\<lambda>((s, rp, st, srv), w). (s, rp, st, w))
       (WriteBlock mem_dev (\<lambda>_. 99) st (mem_server\<lparr>blk_fd := 4\<rparr>) mem_request \<lparr>end_block = 0\<rparr> (0, \<lambda>_. [])) =
     map_sum id (\<lambda>((s, rp, st, srv), w). (s, rp, st, w))
       (WriteBlock mem_dev (\<lambda>_. 99) st (mem_server\<lparr>blk_fd := 3\<rparr>) mem_request \<lparr>end_block = 0\<rparr> (0, \<lambda>_. []))"
proof -
  obtain s rp' st srv' w' where
    run: "WriteBlock mem_dev (\<lambda>_. 99) None mem_server mem_request \<lparr>end_block = 0\<rparr> (0, \<lambda>_. [])
      = Inr ((s, rp', st, srv'), w')"
    by (simp add: WriteBlock_def handle_block_def mem_dev_def mem_server_def mem_request_def
        static_init_def blk_nlb_def blk_actual_len_def blk_buffer_def c_eval)
  from write_block_static_device [OF run, where ?srv2.0 = mem_server and other = 4] show ?thesis
    by (auto simp: mem_server_def)
qed

text \<open>the statistics of a block server after \<^verbatim>\<open>ResetStat\<close> report zero for each of the three
  counters, whatever the server did before.\<close>

theorem sync_stat_reset:
  "snd (GetStat (snd (ResetStat srv))) = render_stat
     [(''time on allocation is '', 0), (''time on writes is '', 0), (''total time on server is '', 0)]"
  using sync_stat.report_after_reset [of srv] by simp

end
