(* ===== verification/Tcp_Connection.thy ===== *)
theory Tcp_Connection
  imports Nv_Prelude
begin

text \<open>
  The classes \<^verbatim>\<open>Connection\<close> and \<^verbatim>\<open>TCPConnection\<close> of \<^verbatim>\<open>src/src/net.h\<close>. The socket calls of
  the kernel are the fields of \<open>sock_ops\<close>; what the code relies on is stated by
  \<open>send_law\<close>, \<open>recv_law\<close> (a stream socket accepts and delivers prefixes, in order),
  \<open>send_progress\<close> and \<open>recv_progress\<close> (a call is not interrupted for ever) and
  \<open>fd_law\<close> (which descriptors a call opens and closes). The two transfer loops are partial
  functions; that they return is proved under the progress laws. The locale \<open>connection\<close> is
  the contract of the abstract class; it is interpreted on \<open>TCPConnection\<close>.
\<close>

section \<open>The kernel's socket calls\<close>

definition INITIATOR :: int where "INITIATOR = 0"
definition TARGET :: int where "TARGET = 1"

record sockaddr_in =
  sin_port :: u16      \<comment> \<open>the port that the field denotes in network byte order\<close>
  sin_addr :: u32

record 'w sock_ops =
  sys_socket :: "'w \<Rightarrow> int \<times> 'w"
  sys_bind :: "int \<Rightarrow> sockaddr_in \<Rightarrow> 'w \<Rightarrow> int \<times> 'w"
  sys_listen :: "int \<Rightarrow> int \<Rightarrow> 'w \<Rightarrow> int \<times> 'w"
  sys_accept :: "int \<Rightarrow> 'w \<Rightarrow> int \<times> 'w"
  sys_connect :: "int \<Rightarrow> sockaddr_in \<Rightarrow> 'w \<Rightarrow> int \<times> 'w"
  sys_send :: "int \<Rightarrow> byte list \<Rightarrow> 'w \<Rightarrow> (int \<times> bool) \<times> 'w"
    \<comment> \<open>the result, and whether \<^verbatim>\<open>errno\<close> is \<^verbatim>\<open>EINTR\<close>\<close>
  sys_recv :: "int \<Rightarrow> nat \<Rightarrow> 'w \<Rightarrow> (int \<times> byte list \<times> bool) \<times> 'w"
    \<comment> \<open>the result, the bytes stored, and whether \<^verbatim>\<open>errno\<close> is \<^verbatim>\<open>EINTR\<close>\<close>
  sys_closesock :: "int \<Rightarrow> 'w \<Rightarrow> int \<times> 'w"
  sys_inet_addr :: "string \<Rightarrow> u32"

section \<open>TCPConnection\<close>

record tcp_conn =
  peer_sock :: int
  tcp_address :: string
  tcp_role :: int
  tcp_port :: int

text \<open>
  The constructors leave \<^verbatim>\<open>peer_sock\<close> uninitialised: \<open>garbage\<close> is its indeterminate value.
\<close>

definition TCPConnection_at :: "int \<Rightarrow> int \<Rightarrow> string \<Rightarrow> int \<Rightarrow> tcp_conn" where
  "TCPConnection_at garbage r addr p =
     \<lparr>peer_sock = garbage, tcp_address = addr, tcp_role = r, tcp_port = p\<rparr>"

definition TCPConnection_any :: "int \<Rightarrow> int \<Rightarrow> int \<Rightarrow> tcp_conn" where
  "TCPConnection_any garbage r p =
     \<lparr>peer_sock = garbage, tcp_address = [], tcp_role = r, tcp_port = p\<rparr>"

definition tcp_close :: "'w sock_ops \<Rightarrow> tcp_conn \<Rightarrow> 'w \<Rightarrow> int \<times> 'w" where
  "tcp_close ops c w = sys_closesock ops (peer_sock c) w"

definition tcp_init_target :: "'w sock_ops \<Rightarrow> tcp_conn \<Rightarrow> 'w \<Rightarrow> (int \<times> tcp_conn) \<times> 'w" where
  "tcp_init_target ops c w =
     (case sys_socket ops w of (sock, w1) \<Rightarrow>
      case sys_bind ops sock \<lparr>sin_port = word_of_int (tcp_port c), sin_addr = 0\<rparr> w1 of (b, w2) \<Rightarrow>
      if b \<noteq> 0 then (case tcp_close ops c w2 of (r, w3) \<Rightarrow> ((r, c), w3))
      else case sys_listen ops sock 5 w2 of (l, w3) \<Rightarrow>
      if l \<noteq> 0 then (case tcp_close ops c w3 of (r, w4) \<Rightarrow> ((r, c), w4))
      else case sys_accept ops sock w3 of (p, w4) \<Rightarrow>
      let c' = c\<lparr>peer_sock := p\<rparr> in
      if p < 0 then (case tcp_close ops c' w4 of (r, w5) \<Rightarrow> ((r, c'), w5))
      else case sys_closesock ops sock w4 of (_, w5) \<Rightarrow> ((0, c'), w5))"

definition tcp_init_initiator :: "'w sock_ops \<Rightarrow> tcp_conn \<Rightarrow> 'w \<Rightarrow> (int \<times> tcp_conn) \<times> 'w" where
  "tcp_init_initiator ops c w =
     (case sys_socket ops w of (sock, w1) \<Rightarrow>
      let c' = c\<lparr>peer_sock := sock\<rparr> in
      case sys_connect ops sock
             \<lparr>sin_port = word_of_int (tcp_port c), sin_addr = sys_inet_addr ops (tcp_address c)\<rparr> w1
      of (k, w2) \<Rightarrow>
      if k < 0 then (case tcp_close ops c' w2 of (r, w3) \<Rightarrow> ((r, c'), w3))
      else ((0, c'), w2))"

definition tcp_init :: "'w sock_ops \<Rightarrow> tcp_conn \<Rightarrow> 'w \<Rightarrow> (int \<times> tcp_conn) \<times> 'w" where
  "tcp_init ops c w =
     (if tcp_role c = TARGET then tcp_init_target ops c w
      else if tcp_role c = INITIATOR then tcp_init_initiator ops c w
      else ((0, c), w))"

text \<open>
  One iteration of the loop of \<^verbatim>\<open>send\<close>: the variables are \<^verbatim>\<open>left\<close>, the bytes from
  \<^verbatim>\<open>buffer\<close> on, and the world.
\<close>

definition send_body ::
  "'w sock_ops \<Rightarrow> int \<Rightarrow> int \<Rightarrow> int \<times> byte list \<times> 'w \<Rightarrow> (int \<times> byte list \<times> 'w) + (int \<times> 'w)" where
  "send_body ops sock len = (\<lambda>(left, buffer, w).
     if left > 0 then
       case sys_send ops sock (take (nat left) buffer) w of ((writeBytes, eintr), w') \<Rightarrow>
       if writeBytes < 0 then (if eintr then Inl (left, buffer, w') else Inr (-1, w'))
       else if writeBytes = 0 then Inl (left, buffer, w')
       else Inl (left - writeBytes, drop (nat writeBytes) buffer, w')
     else Inr (len, w))"

definition tcp_send :: "'w sock_ops \<Rightarrow> tcp_conn \<Rightarrow> byte list \<Rightarrow> int \<Rightarrow> 'w \<Rightarrow> (int \<times> 'w) option" where
  "tcp_send ops c data len w = loop (send_body ops (peer_sock c) len) (len, data, w)"

text \<open>
  One iteration of the loop of \<^verbatim>\<open>recv\<close>: the variables are \<^verbatim>\<open>left\<close>, the bytes stored so
  far, and the world. \<open>tcp_recv\<close> returns the value of \<^verbatim>\<open>recv\<close> and the bytes stored.
\<close>

definition recv_body ::
  "'w sock_ops \<Rightarrow> int \<Rightarrow> int \<Rightarrow> int \<times> byte list \<times> 'w \<Rightarrow>
     (int \<times> byte list \<times> 'w) + ((int \<times> byte list) \<times> 'w)" where
  "recv_body ops sock len = (\<lambda>(left, got, w).
     if left > 0 then
       case sys_recv ops sock (nat left) w of ((readBytes, bytes, eintr), w') \<Rightarrow>
       if readBytes < 0 then (if eintr then Inl (left, got, w') else Inr ((-1, got), w'))
       else if readBytes = 0 then Inr ((len - left, got), w')
       else Inl (left - readBytes, got @ bytes, w')
     else Inr ((len, got), w))"

definition tcp_recv ::
  "'w sock_ops \<Rightarrow> tcp_conn \<Rightarrow> int \<Rightarrow> 'w \<Rightarrow> ((int \<times> byte list) \<times> 'w) option" where
  "tcp_recv ops c len w = loop (recv_body ops (peer_sock c) len) (len, [], w)"

section \<open>What the code relies on\<close>

definition send_law :: "'w sock_ops \<Rightarrow> (int \<Rightarrow> 'w \<Rightarrow> byte list) \<Rightarrow> bool" where
  "send_law ops wire \<longleftrightarrow>
     (\<forall>s buf w n e w'. sys_send ops s buf w = ((n, e), w') \<longrightarrow>
        n \<le> int (length buf) \<and> wire s w' = wire s w @ take (nat n) buf)"

definition recv_law :: "'w sock_ops \<Rightarrow> (int \<Rightarrow> 'w \<Rightarrow> byte list) \<Rightarrow> bool" where
  "recv_law ops inq \<longleftrightarrow>
     (\<forall>s k w n bs e w'. sys_recv ops s k w = ((n, bs, e), w') \<longrightarrow>
        n \<le> int k \<and> length bs = nat n \<and> inq s w = bs @ inq s w' \<and> (n = 0 \<and> 0 < k \<longrightarrow> inq s w = []))"

definition send_progress :: "'w sock_ops \<Rightarrow> (int \<Rightarrow> 'w \<Rightarrow> nat) \<Rightarrow> bool" where
  "send_progress ops retries \<longleftrightarrow>
     (\<forall>s buf w n e w'. sys_send ops s buf w = ((n, e), w') \<and> buf \<noteq> [] \<and> n \<le> 0 \<longrightarrow>
        retries s w' < retries s w)"

definition recv_progress :: "'w sock_ops \<Rightarrow> (int \<Rightarrow> 'w \<Rightarrow> nat) \<Rightarrow> bool" where
  "recv_progress ops retries \<longleftrightarrow>
     (\<forall>s k w n bs e w'. sys_recv ops s k w = ((n, bs, e), w') \<and> n < 0 \<longrightarrow>
        retries s w' < retries s w)"

text \<open>The only failure a call reports is an interruption.\<close>

definition send_only_interrupted :: "'w sock_ops \<Rightarrow> bool" where
  "send_only_interrupted ops \<longleftrightarrow>
     (\<forall>s buf w n e w'. sys_send ops s buf w = ((n, e), w') \<and> n < 0 \<longrightarrow> e)"

definition recv_only_interrupted :: "'w sock_ops \<Rightarrow> bool" where
  "recv_only_interrupted ops \<longleftrightarrow>
     (\<forall>s k w n bs e w'. sys_recv ops s k w = ((n, bs, e), w') \<and> n < 0 \<longrightarrow> e)"

text \<open>
  Which descriptors are open: \<^verbatim>\<open>socket\<close> and \<^verbatim>\<open>accept\<close> fail or return a fresh one,
  \<^verbatim>\<open>close\<close> gives one back, and no other call changes the set.
\<close>

definition fresh_fd :: "('w \<Rightarrow> int set) \<Rightarrow> 'w \<Rightarrow> int \<Rightarrow> 'w \<Rightarrow> bool" where
  "fresh_fd fds w r w' \<longleftrightarrow>
     (if r < 0 then fds w' = fds w else r \<notin> fds w \<and> fds w' = insert r (fds w))"

definition fd_law :: "'w sock_ops \<Rightarrow> ('w \<Rightarrow> int set) \<Rightarrow> bool" where
  "fd_law ops fds \<longleftrightarrow>
     (\<forall>w r w'. sys_socket ops w = (r, w') \<longrightarrow> fresh_fd fds w r w') \<and>
     (\<forall>s w r w'. sys_accept ops s w = (r, w') \<longrightarrow> fresh_fd fds w r w') \<and>
     (\<forall>s a w r w'. sys_bind ops s a w = (r, w') \<longrightarrow> fds w' = fds w) \<and>
     (\<forall>s b w r w'. sys_listen ops s b w = (r, w') \<longrightarrow> fds w' = fds w) \<and>
     (\<forall>s a w r w'. sys_connect ops s a w = (r, w') \<longrightarrow> fds w' = fds w) \<and>
     (\<forall>s w r w'. sys_closesock ops s w = (r, w') \<longrightarrow> fds w' = fds w - {s})"

lemma fd_lawD:
  assumes "fd_law ops fds"
  shows "sys_socket ops w = (r, w') \<Longrightarrow> fresh_fd fds w r w'"
    and "sys_accept ops s w = (r, w') \<Longrightarrow> fresh_fd fds w r w'"
    and "sys_bind ops s a w = (r, w') \<Longrightarrow> fds w' = fds w"
    and "sys_listen ops s b w = (r, w') \<Longrightarrow> fds w' = fds w"
    and "sys_connect ops s a w = (r, w') \<Longrightarrow> fds w' = fds w"
    and "sys_closesock ops s w = (r, w') \<Longrightarrow> fds w' = fds w - {s}"
  using assms unfolding fd_law_def by metis+

lemma send_lawD:
  assumes "send_law ops wire" and "sys_send ops s buf w = ((n, e), w')"
  shows "n \<le> int (length buf)" and "wire s w' = wire s w @ take (nat n) buf"
  using assms by (auto simp: send_law_def)

lemma recv_lawD:
  assumes "recv_law ops inq" and "sys_recv ops s k w = ((n, bs, e), w')"
  shows "n \<le> int k" and "length bs = nat n" and "inq s w = bs @ inq s w'"
    and "n = 0 \<and> 0 < k \<longrightarrow> inq s w = []"
  using assms unfolding recv_law_def by metis+

section \<open>The send loop\<close>

text \<open>After \<open>k\<close> bytes: \<^verbatim>\<open>buffer\<close> points behind them and they are on the wire.\<close>

definition send_inv ::
  "('w \<Rightarrow> byte list) \<Rightarrow> byte list \<Rightarrow> int \<Rightarrow> byte list \<Rightarrow> int \<times> byte list \<times> 'w \<Rightarrow> bool" where
  "send_inv out sent0 len data = (\<lambda>(left, buffer, w).
     \<exists>k. int k \<le> len \<and> left = len - int k \<and> buffer = drop k data \<and> out w = sent0 @ take k data)"

lemma send_body_inv:
  assumes law: "send_law ops wire"
    and inv: "send_inv (wire sock) sent0 len data s" and next_it: "send_body ops sock len s = Inl s'"
  shows "send_inv (wire sock) sent0 len data s'"
proof -
  obtain left buffer w where s: "s = (left, buffer, w)" by (cases s)
  from inv obtain k where k: "int k \<le> len" "left = len - int k" "buffer = drop k data"
    "wire sock w = sent0 @ take k data" by (auto simp: send_inv_def s)
  obtain n e w1 where call: "sys_send ops sock (take (nat left) buffer) w = ((n, e), w1)"
    by (metis prod.exhaust)
  note l = send_lawD [OF law call]
  have left: "left > 0" using next_it by (auto simp: send_body_def s split: if_splits)
  show ?thesis
  proof (cases "n \<le> 0")
    case True
    with next_it left call have "s' = (left, buffer, w1)"
      by (auto simp: send_body_def s split: if_splits)
    with inv l(2) True show ?thesis by (simp add: send_inv_def s)
  next
    case False
    with next_it left call have s': "s' = (left - n, drop (nat n) buffer, w1)"
      by (auto simp: send_body_def s split: if_splits)
    have n: "n \<le> left" using l(1) left by simp
    have "wire sock w1 = sent0 @ take (k + nat n) data"
      using l(2) n k by (simp add: take_add min_def)
    moreover have "drop (nat n) buffer = drop (k + nat n) data"
      using k by (simp add: add.commute)
    ultimately show ?thesis
      unfolding send_inv_def s' using n k False by (auto intro: exI [of _ "k + nat n"])
  qed
qed

lemma send_body_exit:
  assumes law: "send_law ops wire"
    and inv: "send_inv (wire sock) sent0 len data s" and stop: "send_body ops sock len s = Inr (r, w')"
  shows "\<exists>k. int k \<le> len \<and> wire sock w' = sent0 @ take k data \<and>
           (r = len \<and> int k = len \<or> r = -1 \<and> int k < len)"
proof -
  obtain left buffer w where s: "s = (left, buffer, w)" by (cases s)
  from inv obtain k where k: "int k \<le> len" "left = len - int k" "wire sock w = sent0 @ take k data"
    by (auto simp: send_inv_def s)
  obtain n e w1 where call: "sys_send ops sock (take (nat left) buffer) w = ((n, e), w1)"
    by (metis prod.exhaust)
  have "left \<le> 0 \<and> r = len \<and> w' = w \<or> left > 0 \<and> n < 0 \<and> r = -1 \<and> w' = w1"
    using stop call by (auto simp: send_body_def s split: if_splits)
  then show ?thesis
    using k send_lawD(2) [OF law call] by (intro exI [of _ k]) auto
qed

lemma send_body_progress:
  assumes prog: "send_progress ops retries" and len: "len \<le> int (length data)"
    and inv: "send_inv out sent0 len data s" and next_it: "send_body ops sock len s = Inl s'"
  shows "(s', s) \<in> measures [\<lambda>(left, _, _). nat left, \<lambda>(_, _, w). retries sock w]"
proof -
  obtain left buffer w where s: "s = (left, buffer, w)" by (cases s)
  obtain n e w1 where call: "sys_send ops sock (take (nat left) buffer) w = ((n, e), w1)"
    by (metis prod.exhaust)
  have "left > 0" using next_it by (auto simp: send_body_def s split: if_splits)
  with inv len have "take (nat left) buffer \<noteq> []" by (auto simp: send_inv_def s)
  with prog call have "n \<le> 0 \<Longrightarrow> retries sock w1 < retries sock w"
    unfolding send_progress_def by blast
  then show ?thesis
    using next_it call by (auto simp: send_body_def s split: if_splits)
qed

lemma tcp_send_spec:
  assumes "send_law ops wire" and "tcp_send ops c data len w = Some (r, w')" and "0 \<le> len"
  shows "\<exists>k. int k \<le> len \<and> wire (peer_sock c) w' = wire (peer_sock c) w @ take k data \<and>
           (r = len \<and> int k = len \<or> r = -1 \<and> int k < len)" (is "?P r w'")
proof -
  let ?I = "send_inv (wire (peer_sock c)) (wire (peer_sock c) w) len data"
  have "(\<lambda>(r, w'). ?P r w') (r, w')"
  proof (rule loop_rule [OF assms(2) [unfolded tcp_send_def], where I = ?I])
    show "?I (len, data, w)" using assms(3) by (auto simp: send_inv_def)
    show "?I s'" if "?I s" and "send_body ops (peer_sock c) len s = Inl s'" for s s'
      using send_body_inv [OF assms(1) that] .
    show "(\<lambda>(r, w'). ?P r w') res" if "?I s" and "send_body ops (peer_sock c) len s = Inr res" for s res
      using send_body_exit [OF assms(1) that(1)] that(2) by (cases res) auto
  qed
  then show ?thesis by simp
qed

lemma tcp_send_ends:
  assumes "send_law ops wire" and "send_progress ops retries" and "0 \<le> len"
    and "len \<le> int (length data)"
  shows "\<exists>r w'. tcp_send ops c data len w = Some (r, w')"
proof -
  let ?I = "send_inv (wire (peer_sock c)) (wire (peer_sock c) w) len data"
  have "?I (len, data, w)" using assms(3) by (auto simp: send_inv_def)
  then have "\<exists>res. tcp_send ops c data len w = Some res"
    unfolding tcp_send_def
    by (rule loop_ends [OF _ wf_measures])
      (blast intro: send_body_progress [OF assms(2,4)] send_body_inv [OF assms(1)])
  then show ?thesis by simp
qed

lemma tcp_send_all:
  assumes "send_law ops wire" and "send_progress ops retries" and "send_only_interrupted ops"
    and "0 \<le> len" and "len \<le> int (length data)"
  shows "\<exists>w'. tcp_send ops c data len w = Some (len, w') \<and>
              wire (peer_sock c) w' = wire (peer_sock c) w @ take (nat len) data"
proof -
  obtain r w' where run: "tcp_send ops c data len w = Some (r, w')"
    using tcp_send_ends [OF assms(1,2,4,5)] by blast
  have e: "sys_send ops s buf w = ((n, e), w') \<Longrightarrow> n < 0 \<Longrightarrow> e" for s buf w n e w'
    using assms(3) unfolding send_only_interrupted_def by blast
  have "fst (r, w') = len"
    by (rule loop_rule [OF run [unfolded tcp_send_def], where I = "\<lambda>_. True"])
      (auto simp: send_body_def dest: e split: if_splits prod.splits)
  with tcp_send_spec [OF assms(1) run assms(4)] run assms(4) show ?thesis by auto
qed

section \<open>The receive loop\<close>

definition recv_inv ::
  "('w \<Rightarrow> byte list) \<Rightarrow> byte list \<Rightarrow> int \<Rightarrow> int \<times> byte list \<times> 'w \<Rightarrow> bool" where
  "recv_inv inp inq0 len = (\<lambda>(left, got, w).
     0 \<le> left \<and> left = len - int (length got) \<and> inq0 = got @ inp w)"

lemma recv_body_inv:
  assumes law: "recv_law ops inq"
    and inv: "recv_inv (inq sock) inq0 len s" and next_it: "recv_body ops sock len s = Inl s'"
  shows "recv_inv (inq sock) inq0 len s'"
proof -
  obtain left got w where s: "s = (left, got, w)" by (cases s)
  obtain n bs e w1 where call: "sys_recv ops sock (nat left) w = ((n, bs, e), w1)"
    by (metis prod.exhaust)
  note l = recv_lawD [OF law call]
  have left: "left > 0" using next_it by (auto simp: recv_body_def s split: if_splits)
  show ?thesis
    using next_it inv left call l
    by (auto simp: recv_body_def recv_inv_def s split: if_splits)
qed

lemma recv_body_exit:
  assumes law: "recv_law ops inq"
    and inv: "recv_inv (inq sock) inq0 len s"
    and stop: "recv_body ops sock len s = Inr ((r, got), w')"
  shows "inq0 = got @ inq sock w' \<and> int (length got) \<le> len \<and>
    (r = int (length got) \<and> (r < len \<longrightarrow> inq sock w' = []) \<or> r = -1 \<and> int (length got) < len)"
proof -
  obtain left got0 w where s: "s = (left, got0, w)" by (cases s)
  obtain n bs e w1 where call: "sys_recv ops sock (nat left) w = ((n, bs, e), w1)"
    by (metis prod.exhaust)
  note l = recv_lawD [OF law call]
  show ?thesis
    using stop inv call l
    by (auto simp: recv_body_def recv_inv_def s split: if_splits)
qed

lemma recv_body_progress:
  assumes prog: "recv_progress ops retries"
    and next_it: "recv_body ops sock len s = Inl s'"
  shows "(s', s) \<in> measures [\<lambda>(left, _, _). nat left, \<lambda>(_, _, w). retries sock w]"
proof -
  obtain left got w where s: "s = (left, got, w)" by (cases s)
  obtain n bs e w1 where call: "sys_recv ops sock (nat left) w = ((n, bs, e), w1)"
    by (metis prod.exhaust)
  have "n < 0 \<Longrightarrow> retries sock w1 < retries sock w"
    using prog call by (auto simp: recv_progress_def)
  then show ?thesis
    using next_it call by (auto simp: recv_body_def s split: if_splits)
qed

lemma tcp_recv_spec:
  assumes "recv_law ops inq" and "tcp_recv ops c len w = Some ((r, got), w')" and "0 \<le> len"
  shows "inq (peer_sock c) w = got @ inq (peer_sock c) w' \<and> int (length got) \<le> len \<and>
    (r = int (length got) \<and> (r < len \<longrightarrow> inq (peer_sock c) w' = []) \<or>
     r = -1 \<and> int (length got) < len)" (is "?P r got w'")
proof -
  let ?I = "recv_inv (inq (peer_sock c)) (inq (peer_sock c) w) len"
  have "(\<lambda>((r, got), w'). ?P r got w') ((r, got), w')"
  proof (rule loop_rule [OF assms(2) [unfolded tcp_recv_def], where I = ?I])
    show "?I (len, [], w)" using assms(3) by (auto simp: recv_inv_def)
    show "?I s'" if "?I s" and "recv_body ops (peer_sock c) len s = Inl s'" for s s'
      using recv_body_inv [OF assms(1) that] .
    show "(\<lambda>((r, got), w'). ?P r got w') res"
      if "?I s" and "recv_body ops (peer_sock c) len s = Inr res" for s res
      using recv_body_exit [OF assms(1) that(1)] that(2) by (cases res) auto
  qed
  then show ?thesis by simp
qed

lemma tcp_recv_ends:
  assumes "recv_progress ops retries"
  shows "\<exists>r got w'. tcp_recv ops c len w = Some ((r, got), w')"
proof -
  have "\<exists>res. tcp_recv ops c len w = Some res"
    unfolding tcp_recv_def
    by (rule loop_ends [where I = "\<lambda>_. True", OF TrueI wf_measures])
      (blast intro: recv_body_progress [OF assms])
  then show ?thesis by (metis prod.exhaust)
qed

lemma tcp_recv_no_error:
  assumes "recv_only_interrupted ops" and "tcp_recv ops c len w = Some ((r, got), w')"
    and "recv_law ops inq" and "0 \<le> len"
  shows "r = int (length got)"
proof -
  have e: "sys_recv ops s k w = ((n, bs, e), w') \<Longrightarrow> n < 0 \<Longrightarrow> e" for s k w n bs e w'
    using assms(1) unfolding recv_only_interrupted_def by blast
  let ?I = "recv_inv (inq (peer_sock c)) (inq (peer_sock c) w) len"
  have "fst (fst ((r, got), w')) \<noteq> -1"
  proof (rule loop_rule [OF assms(2) [unfolded tcp_recv_def], where I = ?I])
    show "?I (len, [], w)" using assms(4) by (auto simp: recv_inv_def)
    show "?I s'" if "?I s" and "recv_body ops (peer_sock c) len s = Inl s'" for s s'
      using recv_body_inv [OF assms(3) that] .
    show "fst (fst res) \<noteq> -1" if "?I s" and "recv_body ops (peer_sock c) len s = Inr res" for s res
      using that by (auto simp: recv_body_def recv_inv_def dest: e split: if_splits prod.splits)
  qed
  with tcp_recv_spec [OF assms(3,2,4)] show ?thesis by auto
qed

text \<open>When the peer has sent at least \<^verbatim>\<open>len\<close> bytes, exactly those are received.\<close>

lemma tcp_recv_all:
  assumes law: "recv_law ops inq" and prog: "recv_progress ops retries"
    and only: "recv_only_interrupted ops" and len: "0 \<le> len"
    and avail: "inq (peer_sock c) w = data @ rest" and data: "int (length data) = len"
  shows "\<exists>w'. tcp_recv ops c len w = Some ((len, data), w') \<and> inq (peer_sock c) w' = rest"
proof -
  obtain r got w' where run: "tcp_recv ops c len w = Some ((r, got), w')"
    using tcp_recv_ends [OF prog] by blast
  note spec = tcp_recv_spec [OF law run len] and r = tcp_recv_no_error [OF only run law len]
  have eq: "data @ rest = got @ inq (peer_sock c) w'" and "int (length got) \<le> len"
    and short: "int (length got) < len \<longrightarrow> inq (peer_sock c) w' = []"
    using spec r avail by auto
  have "\<not> int (length got) < len"
  proof
    assume less: "int (length got) < len"
    with short have "length (data @ rest) = length got" by (simp add: eq)
    with less data show False by simp
  qed
  with \<open>int (length got) \<le> len\<close> data have "length data = length got" by simp
  with eq have "data = got \<and> rest = inq (peer_sock c) w'"
    using append_eq_append_conv [of data got rest] by blast
  then show ?thesis using run r data by (intro exI [of _ w']) simp
qed

section \<open>The contract of the abstract class\<close>

text \<open>
  What \<^verbatim>\<open>Connection\<close> promises to its clients: \<open>laws\<close> relates the environment to the bytes
  that went out on a connection and to the bytes that wait to be read from it; \<open>live\<close> adds
  that the environment makes progress and reports no failure.
\<close>

locale connection =
  fixes laws :: "'o \<Rightarrow> ('c \<Rightarrow> 'w \<Rightarrow> byte list) \<Rightarrow> ('c \<Rightarrow> 'w \<Rightarrow> byte list) \<Rightarrow> bool"
    and live :: "'o \<Rightarrow> bool"
    and c_send :: "'o \<Rightarrow> 'c \<Rightarrow> byte list \<Rightarrow> int \<Rightarrow> 'w \<Rightarrow> (int \<times> 'w) option"
    and c_recv :: "'o \<Rightarrow> 'c \<Rightarrow> int \<Rightarrow> 'w \<Rightarrow> ((int \<times> byte list) \<times> 'w) option"
  assumes send_all: "\<lbrakk>laws ops out inp; live ops; 0 \<le> len; len \<le> int (length data)\<rbrakk> \<Longrightarrow>
      \<exists>w'. c_send ops c data len w = Some (len, w') \<and> out c w' = out c w @ take (nat len) data"
    and recv_all: "\<lbrakk>laws ops out inp; live ops; inp c w = data @ rest; int (length data) = len\<rbrakk> \<Longrightarrow>
      \<exists>w'. c_recv ops c len w = Some ((len, data), w') \<and> inp c w' = rest"
    and recv_prefix: "\<lbrakk>laws ops out inp; 0 \<le> len; c_recv ops c len w = Some ((r, got), w')\<rbrakk> \<Longrightarrow>
      inp c w = got @ inp c w' \<and> int (length got) \<le> len \<and> (r = int (length got) \<or> r = -1)"
begin

text \<open>Two messages sent one after the other arrive as their concatenation.\<close>

lemma send_twice:
  assumes "laws ops out inp" and "live ops"
  shows "\<exists>w1 w2. c_send ops c a (int (length a)) w = Some (int (length a), w1) \<and>
           c_send ops c b (int (length b)) w1 = Some (int (length b), w2) \<and>
           out c w2 = out c w @ a @ b"
  using send_all [OF assms, of "int (length a)" a c w] send_all [OF assms, of "int (length b)" b c]
  by fastforce

text \<open>
  A transfer: what one end sends, put at the front of what the other end can read, is received
  there unchanged, however the environment splits it.
\<close>

lemma transfer:
  assumes "laws ops1 out1 inp1" and "live ops1" and "laws ops2 out2 inp2" and "live ops2"
    and link: "\<And>w'. out1 c1 w' = out1 c1 w @ data \<Longrightarrow> inp2 c2 (carry w') = data @ rest"
    and len: "int (length data) = len"
  shows "\<exists>w1 w2. c_send ops1 c1 data len w = Some (len, w1) \<and>
           c_recv ops2 c2 len (carry w1) = Some ((len, data), w2) \<and> inp2 c2 w2 = rest"
proof -
  obtain w1 where send: "c_send ops1 c1 data len w = Some (len, w1)"
    and "out1 c1 w1 = out1 c1 w @ data"
    using send_all [OF assms(1,2), of len data c1 w] len by auto
  with link have "inp2 c2 (carry w1) = data @ rest" by blast
  with recv_all [OF assms(3,4) this len] send show ?thesis by blast
qed

end

definition tcp_laws ::
  "'w sock_ops \<Rightarrow> (tcp_conn \<Rightarrow> 'w \<Rightarrow> byte list) \<Rightarrow> (tcp_conn \<Rightarrow> 'w \<Rightarrow> byte list) \<Rightarrow> bool" where
  "tcp_laws ops out inp \<longleftrightarrow>
     (\<exists>wire inq. send_law ops wire \<and> recv_law ops inq \<and>
        out = (\<lambda>c. wire (peer_sock c)) \<and> inp = (\<lambda>c. inq (peer_sock c)))"

definition tcp_live :: "'w sock_ops \<Rightarrow> bool" where
  "tcp_live ops \<longleftrightarrow> (\<exists>retries. send_progress ops retries \<and> recv_progress ops retries) \<and>
     send_only_interrupted ops \<and> recv_only_interrupted ops"

interpretation tcp: connection tcp_laws tcp_live tcp_send tcp_recv
proof
  fix ops :: "'w sock_ops" and out inp c w and data :: "byte list" and len :: int
  assume "tcp_laws ops out inp" and "tcp_live ops" and "0 \<le> len" and "len \<le> int (length data)"
  then show "\<exists>w'. tcp_send ops c data len w = Some (len, w') \<and> out c w' = out c w @ take (nat len) data"
    unfolding tcp_laws_def tcp_live_def using tcp_send_all by fast
next
  fix ops :: "'w sock_ops" and out inp c w data rest and len :: int
  assume "tcp_laws ops out inp" and "tcp_live ops" and "inp c w = data @ rest"
    and "int (length data) = len"
  then show "\<exists>w'. tcp_recv ops c len w = Some ((len, data), w') \<and> inp c w' = rest"
    unfolding tcp_laws_def tcp_live_def using tcp_recv_all [of ops _ _ len c w data rest] by fastforce
next
  fix ops :: "'w sock_ops" and out inp c w r got w' and len :: int
  assume "tcp_laws ops out inp" and "0 \<le> len" and "tcp_recv ops c len w = Some ((r, got), w')"
  then show "inp c w = got @ inp c w' \<and> int (length got) \<le> len \<and> (r = int (length got) \<or> r = -1)"
    unfolding tcp_laws_def using tcp_recv_spec [of ops _ c len w r got w'] by fastforce
qed

section \<open>An environment that splits and interrupts\<close>

text \<open>
  A concrete environment for the witnesses: the world holds the number of interruptions still
  to come, the bytes sent and the bytes to be received; a call moves at most two bytes. Sockets
  are numbered from 3, \<^verbatim>\<open>connect\<close> is refused.
\<close>

type_synonym chunk_world = "nat \<times> byte list \<times> byte list"

definition chunk_send :: "int \<Rightarrow> byte list \<Rightarrow> chunk_world \<Rightarrow> (int \<times> bool) \<times> chunk_world" where
  "chunk_send s buf = (\<lambda>(k, out, inp).
     if k > 0 then ((-1, True), (k - 1, out, inp))
     else ((int (min 2 (length buf)), False), (0, out @ take 2 buf, inp)))"

definition chunk_recv :: "int \<Rightarrow> nat \<Rightarrow> chunk_world \<Rightarrow> (int \<times> byte list \<times> bool) \<times> chunk_world" where
  "chunk_recv s n = (\<lambda>(k, out, inp).
     if k > 0 then ((-1, [], True), (k - 1, out, inp))
     else ((int (length (take (min 2 n) inp)), take (min 2 n) inp, False),
           (0, out, drop (min 2 n) inp)))"

definition chunk_ops :: "chunk_world sock_ops" where
  "chunk_ops = \<lparr>sys_socket = (\<lambda>w. (3, w)), sys_bind = (\<lambda>_ _ w. (0, w)), sys_listen = (\<lambda>_ _ w. (0, w)),
     sys_accept = (\<lambda>_ w. (4, w)), sys_connect = (\<lambda>_ _ w. (-1, w)), sys_send = chunk_send,
     sys_recv = chunk_recv, sys_closesock = (\<lambda>_ w. (0, w)), sys_inet_addr = (\<lambda>_. 0)\<rparr>"

definition chunk_out :: "int \<Rightarrow> chunk_world \<Rightarrow> byte list" where
  "chunk_out s = (\<lambda>(k, out, inp). out)"

definition chunk_inp :: "int \<Rightarrow> chunk_world \<Rightarrow> byte list" where
  "chunk_inp s = (\<lambda>(k, out, inp). inp)"

definition chunk_retries :: "int \<Rightarrow> chunk_world \<Rightarrow> nat" where
  "chunk_retries s = (\<lambda>(k, out, inp). k)"

lemma chunk_laws:
  "send_law chunk_ops chunk_out" "recv_law chunk_ops chunk_inp"
  "send_progress chunk_ops chunk_retries" "recv_progress chunk_ops chunk_retries"
  "send_only_interrupted chunk_ops" "recv_only_interrupted chunk_ops"
  by (auto simp: send_law_def recv_law_def send_progress_def recv_progress_def
      send_only_interrupted_def recv_only_interrupted_def chunk_ops_def chunk_send_def chunk_recv_def
      chunk_out_def chunk_inp_def chunk_retries_def min_def split: if_splits)

text \<open>A table of open descriptors, in which \<^verbatim>\<open>connect\<close> is refused.\<close>

definition table_ops :: "int list sock_ops" where
  "table_ops = \<lparr>sys_socket = (\<lambda>w. (int (Suc (nat (fold max w 0))), int (Suc (nat (fold max w 0))) # w)),
     sys_bind = (\<lambda>_ _ w. (0, w)), sys_listen = (\<lambda>_ _ w. (0, w)),
     sys_accept = (\<lambda>_ w. (int (Suc (nat (fold max w 0))), int (Suc (nat (fold max w 0))) # w)),
     sys_connect = (\<lambda>_ _ w. (-1, w)),
     sys_send = (\<lambda>_ b w. ((int (length b), False), w)), sys_recv = (\<lambda>_ _ w. ((0, [], False), w)),
     sys_closesock = (\<lambda>s w. (0, removeAll s w)), sys_inet_addr = (\<lambda>_. 0)\<rparr>"

lemma fold_max_ge: "x \<in> set w \<Longrightarrow> x \<le> fold max w (m :: int)"
  and fold_max_base: "m \<le> fold max w (m :: int)"
proof -
  show base: "m \<le> fold max w m" for m :: int and w
    by (induction w arbitrary: m) (auto intro: order_trans [OF max.cobounded2])
  show "x \<in> set w \<Longrightarrow> x \<le> fold max w m" for m :: int
  proof (induction w arbitrary: m)
    case (Cons y w)
    then show ?case using base [of "max y m" w] by (cases "x = y") auto
  qed simp
qed

lemma table_law: "fd_law table_ops set"
proof -
  have fresh: "1 + int (nat (fold max w 0)) \<notin> set w" for w
  proof
    assume "1 + int (nat (fold max w 0)) \<in> set w"
    from fold_max_ge [OF this, of 0] fold_max_base [of 0 w] show False by simp
  qed
  show ?thesis
    using fresh by (auto simp: fd_law_def fresh_fd_def table_ops_def)
qed

section \<open>Properties\<close>

text \<open>C26: \<^verbatim>\<open>TCPConnection::send\<close> returns whatever splits and finite interruptions the kernel
  makes; it returns \<^verbatim>\<open>len\<close> exactly when all \<^verbatim>\<open>len\<close> bytes went out, once each and in order, and
  \<^verbatim>\<open>-1\<close> when a proper prefix of them did.\<close>

theorem tcp_send_delivers:
  assumes "send_law ops wire" and "send_progress ops retries"
    and "0 \<le> len" and "len \<le> int (length data)"
  shows "\<exists>r w' k. tcp_send ops c data len w = Some (r, w') \<and>
           wire (peer_sock c) w' = wire (peer_sock c) w @ take k data \<and> int k \<le> len \<and>
           (r = len \<and> int k = len \<or> r = -1 \<and> int k < len)"
  using tcp_send_ends [OF assms, of c w] tcp_send_spec [OF assms(1) _ assms(3)] by blast

theorem tcp_send_delivers_witness:
  "\<exists>r w' k. tcp_send chunk_ops (TCPConnection_any 7 0 9876) [1, 2, 3] 3 (2, [9], []) = Some (r, w') \<and>
           chunk_out 7 w' = [9] @ take k [1, 2, 3] \<and> int k \<le> 3 \<and>
           (r = 3 \<and> int k = 3 \<or> r = -1 \<and> int k < 3)"
  using tcp_send_delivers [OF chunk_laws(1,3), of 3 "[1, 2, 3]" "TCPConnection_any 7 0 9876" "(2, [9], [])"]
  by (simp add: TCPConnection_any_def chunk_out_def)

text \<open>\<^verbatim>\<open>TCPConnection::recv\<close> returns, and what it stored is a prefix of what was waiting; it
  returns the number of bytes stored, which is less than \<^verbatim>\<open>len\<close> only when the peer closed and
  nothing is left, or \<^verbatim>\<open>-1\<close> on an error that is not an interruption.\<close>

theorem tcp_recv_exact:
  assumes "recv_law ops inq" and "recv_progress ops retries" and "0 \<le> len"
  shows "\<exists>r got w'. tcp_recv ops c len w = Some ((r, got), w') \<and>
           inq (peer_sock c) w = got @ inq (peer_sock c) w' \<and> int (length got) \<le> len \<and>
           (r = int (length got) \<and> (r < len \<longrightarrow> inq (peer_sock c) w' = []) \<or>
            r = -1 \<and> int (length got) < len)"
  using tcp_recv_ends [OF assms(2), of c len w] tcp_recv_spec [OF assms(1) _ assms(3)] by blast

theorem tcp_recv_exact_witness:
  "\<exists>r got w'. tcp_recv chunk_ops (TCPConnection_any 7 1 9876) 5 (1, [], [4, 5, 6]) = Some ((r, got), w') \<and>
           [4, 5, 6] = got @ chunk_inp 7 w' \<and> int (length got) \<le> 5 \<and>
           (r = int (length got) \<and> (r < 5 \<longrightarrow> chunk_inp 7 w' = []) \<or> r = -1 \<and> int (length got) < 5)"
  using tcp_recv_exact [OF chunk_laws(2,4), of 5 "TCPConnection_any 7 1 9876" "(1, [], [4, 5, 6])"]
  by (simp add: TCPConnection_any_def chunk_inp_def)

text \<open>C3: end to end: a message sent over one connection and carried to the front of what the
  peer can read is received there byte for byte by one \<^verbatim>\<open>recv\<close> of its length, however the two
  kernels split the stream, and what follows it is left for the next call.\<close>

theorem tcp_transfer:
  fixes ops1 ops2 :: "'w sock_ops"
  assumes "tcp_laws ops1 out1 inp1" and "tcp_live ops1" and "tcp_laws ops2 out2 inp2" and "tcp_live ops2"
    and "\<And>w'. out1 c1 w' = out1 c1 w @ data \<Longrightarrow> inp2 c2 (carry w') = data @ rest"
    and "int (length data) = len"
  shows "\<exists>w1 w2. tcp_send ops1 c1 data len w = Some (len, w1) \<and>
           tcp_recv ops2 c2 len (carry w1) = Some ((len, data), w2) \<and> inp2 c2 w2 = rest"
  using assms by (rule tcp.transfer)

theorem tcp_transfer_witness:
  "\<exists>w1 w2. tcp_send chunk_ops (TCPConnection_any 7 0 9876) [1, 2, 3] 3 (2, [], []) = Some (3, w1) \<and>
      tcp_recv chunk_ops (TCPConnection_any 8 1 9876) 3 (case w1 of (k, out, inp) \<Rightarrow> (1, [], out))
        = Some ((3, [1, 2, 3]), w2) \<and> chunk_inp 8 w2 = []"
proof -
  have laws: "tcp_laws chunk_ops (\<lambda>c. chunk_out (peer_sock c)) (\<lambda>c. chunk_inp (peer_sock c))"
    and live: "tcp_live chunk_ops"
    using chunk_laws by (auto simp: tcp_laws_def tcp_live_def)
  show ?thesis
    using tcp_transfer [where ?c1.0 = "TCPConnection_any 7 0 9876"
        and ?c2.0 = "TCPConnection_any 8 1 9876" and w = "(2, [], [])" and data = "[1, 2, 3]" and len = 3
        and carry = "\<lambda>w1. case w1 of (k, out, inp) \<Rightarrow> (1, [], out)" and rest = "[]", OF laws live laws live]
    by (simp add: TCPConnection_any_def chunk_out_def chunk_inp_def split: prod.splits)
qed

text \<open>a target whose \<^verbatim>\<open>init\<close> accepted a peer returns 0 and has opened exactly one new
  descriptor, that of the peer: the listening socket is closed again.\<close>

theorem tcp_init_target_fds:
  assumes "fd_law ops fds" and "tcp_role c = TARGET"
    and "sys_socket ops w = (sock, w1)" and "0 \<le> sock"
    and "sys_bind ops sock \<lparr>sin_port = word_of_int (tcp_port c), sin_addr = 0\<rparr> w1 = (0, w2)"
    and "sys_listen ops sock 5 w2 = (0, w3)" and "sys_accept ops sock w3 = (p, w4)" and "0 \<le> p"
  shows "\<exists>w'. tcp_init ops c w = ((0, c\<lparr>peer_sock := p\<rparr>), w') \<and>
           fds w' = insert p (fds w) \<and> p \<notin> fds w"
proof -
  obtain r w5 where close: "sys_closesock ops sock w4 = (r, w5)" by (metis prod.exhaust)
  note l = fd_lawD [OF assms(1)]
  have "fresh_fd fds w sock w1" and "fresh_fd fds w3 p w4" and "fds w2 = fds w1" and "fds w3 = fds w2"
    and "fds w5 = fds w4 - {sock}"
    by (rule l(1) [OF assms(3)] l(2) [OF assms(7)] l(3) [OF assms(5)] l(4) [OF assms(6)] l(6) [OF close])+
  then have "fds w5 = insert p (fds w)" and "p \<notin> fds w"
    using assms(4,8) by (auto simp: fresh_fd_def)
  with assms close show ?thesis
    by (simp add: tcp_init_def tcp_init_target_def Let_def)
qed

theorem tcp_init_target_fds_witness:
  "\<exists>w'. tcp_init table_ops (TCPConnection_any 0 TARGET 9876) [2] =
           ((0, (TCPConnection_any 0 TARGET 9876)\<lparr>peer_sock := 4\<rparr>), w') \<and>
        set w' = insert 4 {2} \<and> 4 \<notin> {2 :: int}"
  using tcp_init_target_fds [OF table_law, of "TCPConnection_any 0 TARGET 9876" "[2]" 3 "[3, 2]" "[3, 2]"
      "[3, 2]" 4 "[4, 3, 2]"]
  by (simp add: table_ops_def TCPConnection_any_def)

text \<open>the error path of \<^verbatim>\<open>init\<close> returns what \<^verbatim>\<open>close\<close> returns: an initiator whose
  \<^verbatim>\<open>connect\<close> is refused reports success (0) whenever closing its socket succeeds, and the
  descriptor it keeps is not open.\<close>

theorem tcp_init_hides_connect_failure:
  assumes "fd_law ops fds" and "tcp_role c = INITIATOR"
    and "sys_socket ops w = (sock, w1)"
    and "sys_connect ops sock
           \<lparr>sin_port = word_of_int (tcp_port c), sin_addr = sys_inet_addr ops (tcp_address c)\<rparr> w1 = (k, w2)"
    and "k < 0" and "sys_closesock ops sock w2 = (0, w3)"
  shows "tcp_init ops c w = ((0, c\<lparr>peer_sock := sock\<rparr>), w3) \<and> sock \<notin> fds w3"
proof -
  have "fds w3 = fds w2 - {sock}" using fd_lawD(6) [OF assms(1,6)] .
  with assms show ?thesis
    by (simp add: tcp_init_def tcp_init_initiator_def tcp_close_def INITIATOR_def TARGET_def Let_def)
qed

theorem tcp_init_hides_connect_failure_witness:
  "tcp_init table_ops (TCPConnection_at 0 INITIATOR ''10.10.1.2'' 9876) [] =
     ((0, (TCPConnection_at 0 INITIATOR ''10.10.1.2'' 9876)\<lparr>peer_sock := 1\<rparr>), []) \<and> 1 \<notin> set ([] :: int list)"
  using tcp_init_hides_connect_failure [OF table_law, of "TCPConnection_at 0 INITIATOR ''10.10.1.2'' 9876"
      "[]" 1 "[1]" "-1" "[1]" "[]"]
  by (simp add: table_ops_def TCPConnection_at_def)

end
