(* ===== verification/Block_Clients.thy ===== *)
theory Block_Clients
  imports Block_Service Tcp_Connection
begin

text \<open>
  The programs that drive a device: the local benchmark of \<^verbatim>\<open>src/src/block_rw_nvmeof.cc\<close> and
  the receiving benchmark of \<^verbatim>\<open>src/src/block_target.cc\<close>, which reads from a \<^verbatim>\<open>Connection\<close>. The
  random numbers (\<^verbatim>\<open>dist(mt)\<close>, uniform between 0 and \<^verbatim>\<open>INT32_MAX\<close>) are an argument.
\<close>

section \<open>Random start blocks\<close>

text \<open>The parameter \<^verbatim>\<open>int total_blocks\<close> of the first two programs converts the 64-bit count.\<close>

definition random_start_block :: "int \<Rightarrow> u64 \<Rightarrow> int outcome" where
  "random_start_block draw nblk = c_rem draw (to_int32 (uint nblk))"

text \<open>The target's version reduces by the 64-bit count itself.\<close>

definition random_start_block_dev :: "int \<Rightarrow> u64 \<Rightarrow> int outcome" where
  "random_start_block_dev draw nblk =
     (if nblk = 0 then Inl Div_by_zero else Inr (uint ((word_of_int draw :: u64) mod nblk)))"

section \<open>The local benchmark\<close>

definition bench_nlb :: "int \<Rightarrow> int \<Rightarrow> u16 outcome" where
  "bench_nlb data_size lbs =
     bindF (c_div data_size lbs) (\<lambda>q.
     bindF (c_rem data_size lbs) (\<lambda>r.
     let nlb = word_of_int q :: u16 in Inr (if r = 0 then nlb - 1 else nlb)))"

text \<open>
  One pass over the indices \<open>is\<close> of the loop: \<open>True\<close> when every command succeeded, with the
  accumulated \<^verbatim>\<open>total_time\<close>.
\<close>

fun bench_loop ::
  "'w nvme_dev \<Rightarrow> io_args \<Rightarrow> u64 \<Rightarrow> (nat \<Rightarrow> int) \<Rightarrow> nat list \<Rightarrow> int \<Rightarrow> 'w \<Rightarrow> ((bool \<times> int) \<times> 'w) outcome" where
  "bench_loop dev args nblk draw [] tt w = Inr ((True, tt), w)"
| "bench_loop dev args nblk draw (i # is) tt w =
     bindF (random_start_block (draw i) nblk) (\<lambda>slba.
     case dev_now dev w of (start_time, w1) \<Rightarrow>
     case dev_write dev (args\<lparr>io_slba := word_of_int slba\<rparr>) w1 of (err, w2) \<Rightarrow>
     case dev_now dev w2 of (end_time, w3) \<Rightarrow>
     let tt' = tt + (end_time - start_time) in
     if err \<noteq> 0 then Inr ((False, tt'), w3)
     else bench_loop dev args nblk draw is tt' w3)"

text \<open>
  The whole test: \<open>fresh\<close> is the contents of the \<^verbatim>\<open>malloc\<close>ed buffer. After a complete run the
  report multiplies \<^verbatim>\<open>N * data_size\<close> as \<^verbatim>\<open>int\<close>s; an incomplete run reports nothing.
\<close>

definition bench_N :: nat where "bench_N = 100000"

definition test_write_throughput_random ::
  "'w nvme_lib \<Rightarrow> 'w nvme_dev \<Rightarrow> (nat \<Rightarrow> byte) \<Rightarrow> (nat \<Rightarrow> int) \<Rightarrow> device_config \<Rightarrow> int \<Rightarrow> 'w \<Rightarrow>
     ((int \<times> int) option \<times> 'w) outcome" where
  "test_write_throughput_random lib dev fresh draw config data_size w =
     (case open_bdev lib (dev_name config) w of (fd, w1) \<Rightarrow>
      let lbs = logical_block_size config in
      bindF (bench_nlb data_size lbs) (\<lambda>nlb.
      bindF (checked_int ((uint nlb + 1) * lbs)) (\<lambda>actual_size.
      let args = \<lparr>io_slba = 0, io_nlb = nlb, io_data_len = word_of_int actual_size,
                  io_data = map fresh [0..<nat actual_size], io_fd = fd,
                  io_nsid = namespace_id config\<rparr> in
      bindF (bench_loop dev args (number_of_logical_blocks config) draw [0..<bench_N] 0 w1)
        (\<lambda>((complete, total_time), w2).
      if \<not> complete then Inr (None, w2)
      else bindF (checked_int (int bench_N * data_size)) (\<lambda>bytes.
        Inr (Some (total_time, bytes), w2))))))"

section \<open>The receiving benchmark\<close>

definition target_N :: nat where "target_N = 1000000"

text \<open>
  \<open>recv\<close> and \<open>nvme_write\<close> are the calls of the loop; \<open>buffer\<close> is the receive buffer, of which a
  short \<^verbatim>\<open>recv\<close> overwrites only the front. The loop is left by \<^verbatim>\<open>break\<close> when \<^verbatim>\<open>recv\<close> fails
  (\<open>Inl\<close> of the count so far) and by \<^verbatim>\<open>return\<close> when a command fails (\<open>Inr\<close>).
\<close>

fun target_loop ::
  "(int \<Rightarrow> 'w \<Rightarrow> ((int \<times> byte list) \<times> 'w) option) \<Rightarrow> (byte list \<Rightarrow> 'w \<Rightarrow> int \<times> 'w) \<Rightarrow> int \<Rightarrow>
     nat \<Rightarrow> nat \<Rightarrow> byte list \<Rightarrow> 'w \<Rightarrow> ((nat + nat) \<times> 'w) option" where
  "target_loop recv nvme_write data_size 0 count buffer w = Some (Inl count, w)"
| "target_loop recv nvme_write data_size (Suc n) count buffer w =
     (case recv data_size w of None \<Rightarrow> None
      | Some ((sz, got), w1) \<Rightarrow>
          if sz < 0 then Some (Inl count, w1)
          else let buffer' = got @ drop (length got) buffer in
          case nvme_write buffer' w1 of (err, w2) \<Rightarrow>
          if err \<noteq> 0 then Some (Inr count, w2)
          else target_loop recv nvme_write data_size n (Suc count) buffer' w2)"

definition target_args :: "device_config \<Rightarrow> int \<Rightarrow> int \<Rightarrow> io_args outcome" where
  "target_args config fd data_size =
     bindF (c_div data_size (logical_block_size config)) (\<lambda>q.
     Inr \<lparr>io_slba = 0, io_nlb = word_of_int q,
          io_data_len = word_of_int (logical_block_size config), io_data = [], io_fd = fd,
          io_nsid = namespace_id config\<rparr>)"

text \<open>After the loop the target answers with the five bytes of \<^verbatim>\<open>"done"\<close>.\<close>

definition done_msg :: "byte list" where
  "done_msg = [100, 111, 110, 101, 0]"

definition target_test ::
  "(int \<Rightarrow> 'w \<Rightarrow> ((int \<times> byte list) \<times> 'w) option) \<Rightarrow> (byte list \<Rightarrow> int \<Rightarrow> 'w \<Rightarrow> (int \<times> 'w) option) \<Rightarrow>
     (io_args \<Rightarrow> 'w \<Rightarrow> int \<times> 'w) \<Rightarrow> io_args \<Rightarrow> int \<Rightarrow> nat \<Rightarrow> byte list \<Rightarrow> 'w \<Rightarrow> ((nat + nat) \<times> 'w) option" where
  "target_test recv send nvme_write args data_size n buffer w =
     (case target_loop recv (\<lambda>b. nvme_write (args\<lparr>io_data := b\<rparr>)) data_size n 0 buffer w of
        None \<Rightarrow> None
      | Some (Inr count, w1) \<Rightarrow> Some (Inr count, w1)
      | Some (Inl count, w1) \<Rightarrow>
          (case send done_msg 5 w1 of None \<Rightarrow> None | Some (_, w2) \<Rightarrow> Some (Inl count, w2)))"

section \<open>Lemmas\<close>

lemma random_start_block_pos:
  assumes "0 \<le> draw" and "is_int draw" and "0 < nblk" and "uint nblk \<le> INT_MAX"
  shows "random_start_block draw nblk = Inr (draw mod uint nblk)"
proof -
  have pos: "0 < uint nblk" using assms(3) by (simp add: word_less_def)
  then have "to_int32 (uint nblk) = uint nblk"
    using assms(4) by (intro to_int32_id) (simp add: is_int_def)
  with pos assms show ?thesis by (simp add: random_start_block_def c_rem_pos)
qed

lemma to_int32_dvd: "to_int32 (2 ^ 32 * k) = 0"
  by (simp add: to_int32_def signed_take_bit_eq_take_bit_minus take_bit_eq_mod bit_iff_odd_drop_bit
      drop_bit_eq_div)

text \<open>Each command of a complete run is one step of a counter, and starts inside the device.\<close>

definition command_law :: "'w nvme_dev \<Rightarrow> ('w \<Rightarrow> io_args list) \<Rightarrow> bool" where
  "command_law dev cmds \<longleftrightarrow>
     (\<forall>w t w'. dev_now dev w = (t, w') \<longrightarrow> cmds w' = cmds w) \<and>
     (\<forall>a w r w'. dev_write dev a w = (r, w') \<longrightarrow> cmds w' = cmds w @ [a])"

lemma command_lawD:
  assumes "command_law dev cmds"
  shows "dev_now dev w = (t, w') \<Longrightarrow> cmds w' = cmds w"
    and "dev_write dev a w = (r, w') \<Longrightarrow> cmds w' = cmds w @ [a]"
proof -
  show "dev_now dev w = (t, w') \<Longrightarrow> cmds w' = cmds w"
    using assms unfolding command_law_def by blast
  show "dev_write dev a w = (r, w') \<Longrightarrow> cmds w' = cmds w @ [a]"
    using assms unfolding command_law_def by blast
qed

lemma bench_loop_commands:
  assumes law: "command_law dev cmds" and nblk: "0 < nblk" "uint nblk \<le> INT_MAX"
    and draws: "\<And>i. 0 \<le> draw i \<and> is_int (draw i)"
    and run: "bench_loop dev args nblk draw is tt w = Inr ((complete, tt'), w')"
  shows "\<exists>k \<le> length is. cmds w' = cmds w @
           map (\<lambda>i. args\<lparr>io_slba := word_of_int (draw i mod uint nblk)\<rparr>) (take k is) \<and>
           (complete \<longrightarrow> k = length is) \<and> (\<not> complete \<longrightarrow> 0 < k)"
  using run
proof (induction "is" arbitrary: tt w)
  case Nil
  then show ?case by simp
next
  case (Cons i "is")
  note start = random_start_block_pos [OF conjunct1 [OF draws] conjunct2 [OF draws] nblk]
  obtain t1 w1 where c1: "dev_now dev w = (t1, w1)" by (metis prod.exhaust)
  obtain e w2 where c2: "dev_write dev (args\<lparr>io_slba := word_of_int (draw i mod uint nblk)\<rparr>) w1 = (e, w2)"
    by (metis prod.exhaust)
  obtain t3 w3 where c3: "dev_now dev w2 = (t3, w3)" by (metis prod.exhaust)
  have cmds3: "cmds w3 = cmds w @ [args\<lparr>io_slba := word_of_int (draw i mod uint nblk)\<rparr>]"
    using command_lawD(1) [OF law c1] command_lawD(2) [OF law c2] command_lawD(1) [OF law c3] by simp
  show ?case
  proof (cases "e = 0")
    case True
    then have "bench_loop dev args nblk draw is (tt + (t3 - t1)) w3 = Inr ((complete, tt'), w')"
      using Cons.prems by (simp add: start c1 c2 c3 Let_def)
    from Cons.IH [OF this] obtain k where "k \<le> length is" "cmds w' = cmds w3 @
        map (\<lambda>i. args\<lparr>io_slba := word_of_int (draw i mod uint nblk)\<rparr>) (take k is)"
      "complete \<longrightarrow> k = length is" by blast
    then show ?thesis using cmds3 by (intro exI [of _ "Suc k"]) simp
  next
    case False
    then show ?thesis
      using Cons.prems cmds3 by (intro exI [of _ 1]) (auto simp: start c1 c2 c3 Let_def)
  qed
qed

text \<open>
  The receiving loop, over any \<^verbatim>\<open>Connection\<close>: when the peer sends the chunks one after the other,
  the device gets exactly these chunks, in order.
\<close>

definition target_frame ::
  "('c \<Rightarrow> 'w \<Rightarrow> byte list) \<Rightarrow> ('c \<Rightarrow> 'w \<Rightarrow> byte list) \<Rightarrow> ('w \<Rightarrow> byte list list) \<Rightarrow> 'c \<Rightarrow>
     (int \<Rightarrow> 'w \<Rightarrow> ((int \<times> byte list) \<times> 'w) option) \<Rightarrow> (byte list \<Rightarrow> int \<Rightarrow> 'w \<Rightarrow> (int \<times> 'w) option) \<Rightarrow>
     (byte list \<Rightarrow> 'w \<Rightarrow> int \<times> 'w) \<Rightarrow> bool" where
  "target_frame out inp log c recv send nvme_write \<longleftrightarrow>
     (\<forall>b w r w'. nvme_write b w = (r, w') \<longrightarrow>
        r = 0 \<and> log w' = log w @ [b] \<and> inp c w' = inp c w \<and> out c w' = out c w) \<and>
     (\<forall>len w x w'. recv len w = Some (x, w') \<longrightarrow> log w' = log w \<and> out c w' = out c w) \<and>
     (\<forall>d len w x w'. send d len w = Some (x, w') \<longrightarrow> log w' = log w)"

lemma target_frameD:
  assumes "target_frame out inp log c recv send nvme_write"
  shows "nvme_write b w = (r, w') \<Longrightarrow>
      r = 0 \<and> log w' = log w @ [b] \<and> inp c w' = inp c w \<and> out c w' = out c w"
    and "recv len w = Some (x, w') \<Longrightarrow> log w' = log w \<and> out c w' = out c w"
    and "send d len w = Some (y, w') \<Longrightarrow> log w' = log w"
proof -
  show "send d len w = Some (y, w') \<Longrightarrow> log w' = log w"
    using assms unfolding target_frame_def by blast
  show "nvme_write b w = (r, w') \<Longrightarrow>
      r = 0 \<and> log w' = log w @ [b] \<and> inp c w' = inp c w \<and> out c w' = out c w"
    using assms unfolding target_frame_def by blast
  show "recv len w = Some (x, w') \<Longrightarrow> log w' = log w \<and> out c w' = out c w"
    using assms unfolding target_frame_def by blast
qed

context connection
begin

lemma target_loop_chunks:
  assumes env: "laws ops out inp" "live ops"
    and frame: "target_frame out inp log c (c_recv ops c) (c_send ops c) nvme_write"
    and chunks: "\<forall>ch \<in> set chunks. int (length ch) = data_size"
    and avail: "inp c w = concat chunks @ rest" and buf: "int (length buffer) = data_size"
  shows "\<exists>w'. target_loop (c_recv ops c) nvme_write data_size (length chunks) count buffer w =
           Some (Inl (count + length chunks), w') \<and>
         log w' = log w @ chunks \<and> inp c w' = rest \<and> out c w' = out c w"
  using chunks avail buf
proof (induction chunks arbitrary: count buffer w)
  case Nil
  then show ?case by simp
next
  case (Cons ch chunks)
  have ch: "int (length ch) = data_size" using Cons.prems(1) by simp
  obtain w1 where recv: "c_recv ops c data_size w = Some ((data_size, ch), w1)"
    and inp1: "inp c w1 = concat chunks @ rest"
    using recv_all [OF env _ ch, of c w "concat chunks @ rest"] Cons.prems(2) by auto
  obtain r w2 where wr: "nvme_write ch w1 = (r, w2)" by (metis prod.exhaust)
  note f = target_frameD(1) [OF frame wr] target_frameD(2) [OF frame recv]
  have inp2: "inp c w2 = concat chunks @ rest" using f inp1 by simp
  have rest_ok: "\<forall>ch \<in> set chunks. int (length ch) = data_size" using Cons.prems(1) by simp
  from Cons.IH [OF rest_ok inp2 ch, of "Suc count"] obtain w' where
    "target_loop (c_recv ops c) nvme_write data_size (length chunks) (Suc count) ch w2 =
       Some (Inl (Suc count + length chunks), w')"
    "log w' = log w2 @ chunks" "inp c w' = rest" "out c w' = out c w2" by blast
  moreover have "length buffer = length ch" using ch Cons.prems(3) by simp
  moreover have "\<not> data_size < 0" using ch by simp
  ultimately show ?case using recv wr f by (simp add: Let_def)
qed

lemma target_test_done:
  assumes env: "laws ops out inp" "live ops"
    and frame: "target_frame out inp log c (c_recv ops c) (c_send ops c) (\<lambda>b. nvme_write (args\<lparr>io_data := b\<rparr>))"
    and chunks: "\<forall>ch \<in> set chunks. int (length ch) = data_size"
    and avail: "inp c w = concat chunks @ rest" and buf: "int (length buffer) = data_size"
  shows "\<exists>w'. target_test (c_recv ops c) (c_send ops c) nvme_write args data_size (length chunks) buffer w =
           Some (Inl (length chunks), w') \<and>
         log w' = log w @ chunks \<and> out c w' = out c w @ done_msg"
proof -
  from target_loop_chunks [OF assms, of 0] obtain w1 where
    "target_loop (c_recv ops c) (\<lambda>b. nvme_write (args\<lparr>io_data := b\<rparr>)) data_size (length chunks) 0 buffer w =
       Some (Inl (length chunks), w1)" "log w1 = log w @ chunks" "out c w1 = out c w" by auto
  moreover obtain w2 where snd: "c_send ops c done_msg 5 w1 = Some (5, w2)"
    "out c w2 = out c w1 @ take (nat 5) done_msg"
    using send_all [OF env, of 5 done_msg c w1] by (auto simp: done_msg_def)
  moreover have "take (nat 5) done_msg = done_msg" by (simp add: done_msg_def)
  moreover note target_frameD(3) [OF frame snd(1)]
  ultimately show ?thesis by (auto simp: target_test_def)
qed

end

section \<open>Concrete environments\<close>





text \<open>A device that records its commands; the world is the clock and the record.\<close>

definition rec_dev :: "(int \<times> io_args list) nvme_dev" where
  "rec_dev = \<lparr>dev_now = (\<lambda>(t, l). (t, (t + 1, l))), dev_read = (\<lambda>a (t, l). (0, (t, l))),
     dev_write = (\<lambda>a (t, l). (0, (t, l @ [a])))\<rparr>"

lemma rec_dev_law: "command_law rec_dev snd"
  by (auto simp: command_law_def rec_dev_def)

definition rec_args :: io_args where
  "rec_args = \<lparr>io_slba = 0, io_nlb = 0, io_data_len = 2, io_data = [0, 0], io_fd = 3, io_nsid = 1\<rparr>"

section \<open>Properties\<close>

text \<open>the local benchmark's own computation of the block count (divide, then decrement a
  16-bit field) agrees with the server's (divide, subtract, convert) on every size and block size
  a device can have.\<close>

theorem bench_nlb_eq_server:
  assumes "is_int sz" and "0 \<le> sz" and "0 < lbs"
  shows "bench_nlb sz lbs = blk_nlb sz lbs"
proof -
  have "0 \<le> sz div lbs" and "sz div lbs \<le> sz"
    using assms div_le_self_int by (auto simp: pos_imp_zdiv_nonneg_iff)
  then have "is_int (sz div lbs - 1)" using assms(1) by (auto simp: is_int_def)
  then show ?thesis
    using assms by (simp add: bench_nlb_def blk_nlb_def c_rem_pos c_div_pos checked_int_def)
qed

theorem bench_nlb_eq_server_witness: "bench_nlb 4096 512 = blk_nlb 4096 512"
  using bench_nlb_eq_server [of 4096 512] by (simp add: is_int_def)

text \<open>a run of the local benchmark issues its commands one per iteration, each at a random block
  below the size of the device, and stops at the first failed one: a complete run has issued one
  command per index, in order.\<close>

theorem bench_loop_issues:
  assumes "command_law dev cmds" and "0 < nblk" and "uint nblk \<le> INT_MAX"
    and "\<And>i. 0 \<le> draw i \<and> is_int (draw i)"
    and "bench_loop dev args nblk draw is tt w = Inr ((complete, tt'), w')"
  shows "\<exists>k \<le> length is. cmds w' = cmds w @
           map (\<lambda>i. args\<lparr>io_slba := word_of_int (draw i mod uint nblk)\<rparr>) (take k is) \<and>
           (complete \<longrightarrow> k = length is) \<and> (\<not> complete \<longrightarrow> 0 < k) \<and>
           (\<forall>i. draw i mod uint nblk < uint nblk)"
proof -
  have "\<forall>i. draw i mod uint nblk < uint nblk"
    using assms(2) by (simp add: word_less_def)
  then show ?thesis using bench_loop_commands [OF assms] by blast
qed

theorem bench_loop_issues_witness:
  "\<exists>k \<le> length [0, 1, 2 :: nat]. snd (6 :: int, map (\<lambda>i. rec_args\<lparr>io_slba := i\<rparr>) [1, 5, 9]) = snd (0 :: int, []) @
       map (\<lambda>i. rec_args\<lparr>io_slba := word_of_int ((4 * int i + 101) mod 100)\<rparr>) (take k [0, 1, 2]) \<and>
       (True \<longrightarrow> k = length [0, 1, 2 :: nat]) \<and> (\<not> True \<longrightarrow> 0 < k) \<and>
       (\<forall>i. (4 * int (i mod 1000) + 101) mod 100 < 100)"
proof -
  let ?draw = "\<lambda>i :: nat. 4 * int (i mod 1000) + 101"
  have draws: "0 \<le> ?draw i \<and> is_int (?draw i)" for i
  proof -
    have "i mod 1000 < 1000" by simp
    then have "int (i mod 1000) < 1000" by linarith
    then show ?thesis by (simp add: is_int_def)
  qed
  have run: "bench_loop rec_dev rec_args 100 ?draw [0, 1, 2] 0 (0, []) =
      Inr ((True, 3), (6, map (\<lambda>i. rec_args\<lparr>io_slba := i\<rparr>) [1, 5, 9]))"
    by (simp add: random_start_block_def c_rem_def to_int32_def is_int_def signed_divide_int_def
        signed_modulo_int_def rec_dev_def Let_def)
  from bench_loop_issues [OF rec_dev_law _ _ draws run] show ?thesis by simp
qed

text \<open>on a device whose block count is a multiple of \<open>2 ^ 32\<close> the conversion of the count to
  \<^verbatim>\<open>int\<close> gives zero, and the benchmark's first draw divides by it.\<close>

theorem bench_large_device_traps:
  assumes "uint nblk = 2 ^ 32 * m"
  shows "bench_loop dev args nblk draw (i # is) tt w = Inl Div_by_zero"
proof -
  have "random_start_block (draw i) nblk = Inl Div_by_zero"
    unfolding random_start_block_def assms to_int32_dvd by (simp add: c_rem_def)
  then show ?thesis by simp
qed

theorem bench_large_device_traps_witness:
  "bench_loop rec_dev rec_args 0x100000000 (\<lambda>_. 5) [0] 0 (0, []) = Inl Div_by_zero"
  using bench_large_device_traps [of "0x100000000" 1 rec_dev rec_args "\<lambda>_. 5" 0 "[]" 0 "(0, [])"] by simp



text \<open>the command that the receiving benchmark prepares is one block too long: for data of
  whole blocks it names \<open>data_size / lbs + 1\<close> blocks, more than its buffer holds, and its
  \<^verbatim>\<open>data_len\<close> is that of a single block.\<close>

theorem target_args_one_block_too_many:
  assumes "0 < lbs" and "lbs = logical_block_size config" and "1 \<le> k" and "k \<le> 65535"
    and "is_int (k * lbs)"
  shows "\<exists>a. target_args config fd (k * lbs) = Inr a \<and>
           (uint (io_nlb a) + 1) * lbs = k * lbs + lbs \<and> io_data_len a = word_of_int lbs"
proof -
  have "0 \<le> k * lbs" using assms by simp
  then have "c_div (k * lbs) lbs = Inr k" using assms by (simp add: c_div_pos)
  moreover have "uint (word_of_int k :: u16) = k"
    using assms by (simp add: uint_word_of_int_eq take_bit_int_eq_self)
  ultimately show ?thesis using assms by (simp add: target_args_def distrib_right)
qed

theorem target_args_one_block_too_many_witness:
  "\<exists>a. target_args (blk_config mem_server) 3 (1 * 2) = Inr a \<and>
           (uint (io_nlb a) + 1) * 2 = 1 * 2 + 2 \<and> io_data_len a = word_of_int 2"
  by (rule target_args_one_block_too_many) (simp_all add: mem_server_def is_int_def)

end
