(* ===== verification/Async_Server.thy ===== *)
theory Async_Server
  imports Block_Service
begin

text \<open>
  \<^verbatim>\<open>GRPCAsyncServer\<close> of \<^verbatim>\<open>src/src/net.h\<close>: the call objects (\<^verbatim>\<open>CallData\<close> and its four
  subclasses), the handler that owns a completion queue and the daemon thread that serves it. A tag
  is the address of a call object. The completion queue is gRPC's: a registered call completes once
  when a client calls, a \<^verbatim>\<open>Finish\<close> completes once when the answer is out, in any order; these are
  the environment's steps of the relation \<open>async_step\<close>, the daemon's iterations are the others.
\<close>

section \<open>State\<close>

datatype call_kind = WriteCall | ReadCall | GetStatCall | ResetStatCall

datatype call_status = CREATE | PROCESS | FINISH

text \<open>The life of a call object is a sequence of its states, in this order.\<close>

instantiation call_status :: linorder
begin

fun status_rank :: "call_status \<Rightarrow> nat" where
  "status_rank CREATE = 0"
| "status_rank PROCESS = 1"
| "status_rank FINISH = 2"

definition less_eq_call_status :: "call_status \<Rightarrow> call_status \<Rightarrow> bool" where
  "less_eq_call_status a b \<longleftrightarrow> status_rank a \<le> status_rank b"

definition less_call_status :: "call_status \<Rightarrow> call_status \<Rightarrow> bool" where
  "less_call_status a b \<longleftrightarrow> status_rank a < status_rank b"

instance
proof
  fix a b :: call_status
  show "a \<le> b \<Longrightarrow> b \<le> a \<Longrightarrow> a = b"
    by (cases a; cases b) (simp_all add: less_eq_call_status_def)
qed (auto simp: less_eq_call_status_def less_call_status_def)

end

record calldata =
  cd_kind :: call_kind
  cd_status :: call_status
  cd_request :: block_request

record async_state =
  heap :: "nat \<Rightarrow> calldata option"      \<comment> \<open>the live call objects, by address\<close>
  next_id :: nat
  requested :: "nat list"               \<comment> \<open>tags passed to \<^verbatim>\<open>RequestWriteBlock\<close>\<close>
  finishing :: "nat list"               \<comment> \<open>tags passed to \<^verbatim>\<open>Finish\<close>\<close>
  completed :: "(nat \<times> bool) list"      \<comment> \<open>the completion queue: tag and \<^verbatim>\<open>ok\<close>\<close>
  cq_down :: bool                       \<comment> \<open>\<^verbatim>\<open>cq->Shutdown()\<close> was called\<close>
  answers :: "(nat \<times> block_reply \<times> grpc_status) list"
  owner :: sync_server                  \<comment> \<open>the members of the server the calls use\<close>
  read_static :: static_args

definition empty_request :: block_request where
  "empty_request = \<lparr>req_size = 0, start_block = 0, req_data = []\<rparr>"

section \<open>The call objects\<close>

definition set_status :: "nat \<Rightarrow> call_status \<Rightarrow> async_state \<Rightarrow> async_state" where
  "set_status i st s = (case heap s i of None \<Rightarrow> s
     | Some cd \<Rightarrow> s\<lparr>heap := (heap s)(i \<mapsto> cd\<lparr>cd_status := st\<rparr>)\<rparr>)"

text \<open>The branch of \<^verbatim>\<open>proceed\<close> for \<^verbatim>\<open>CREATE\<close>, of the write and of the read call.\<close>

definition register_call :: "nat \<Rightarrow> async_state \<Rightarrow> async_state" where
  "register_call i s = (set_status i PROCESS s)\<lparr>requested := requested s @ [i]\<rparr>"

text \<open>
  \<^verbatim>\<open>new XCallData(...)\<close>: the constructor calls \<^verbatim>\<open>proceed\<close>, which is empty for the two
  statistics calls.
\<close>

definition new_calldata :: "call_kind \<Rightarrow> async_state \<Rightarrow> async_state" where
  "new_calldata k s =
     (let i = next_id s;
          s1 = s\<lparr>heap := (heap s)(i \<mapsto> \<lparr>cd_kind = k, cd_status = CREATE, cd_request = empty_request\<rparr>),
                 next_id := Suc i\<rparr>
      in if k = WriteCall \<or> k = ReadCall then register_call i s1 else s1)"

definition finish_call :: "nat \<Rightarrow> block_reply \<Rightarrow> grpc_status \<Rightarrow> async_state \<Rightarrow> async_state" where
  "finish_call i reply st s =
     (set_status i FINISH s)\<lparr>finishing := finishing s @ [i], answers := answers s @ [(i, reply, st)]\<rparr>"

definition delete_call :: "nat \<Rightarrow> async_state \<Rightarrow> async_state" where
  "delete_call i s = s\<lparr>heap := (heap s)(i := None)\<rparr>"

definition write_proceed :: "nat \<Rightarrow> calldata \<Rightarrow> async_state \<Rightarrow> async_state" where
  "write_proceed i cd s =
     (case cd_status cd of
        CREATE \<Rightarrow> register_call i s
      | PROCESS \<Rightarrow> finish_call i \<lparr>end_block = 114514\<rparr> Status_OK (new_calldata WriteCall s)
      | FINISH \<Rightarrow> delete_call i s)"

text \<open>The read call registers for and creates \<^emph>\<open>write\<close> calls, as the source does.\<close>

definition read_proceed ::
  "'w nvme_dev \<Rightarrow> (nat \<Rightarrow> byte) \<Rightarrow> nat \<Rightarrow> calldata \<Rightarrow> async_state \<Rightarrow> 'w \<Rightarrow> (async_state \<times> 'w) outcome" where
  "read_proceed dev fresh i cd s w =
     (case cd_status cd of
        CREATE \<Rightarrow> Inr (register_call i s, w)
      | PROCESS \<Rightarrow>
          let s1 = new_calldata WriteCall s in
          bindF (handle_block dev (dev_read dev) fresh (read_static s1) (owner s1) (cd_request cd)
                   \<lparr>end_block = 0\<rparr> w)
            (\<lambda>((st, reply, static, srv), w').
               Inr (finish_call i reply st (s1\<lparr>read_static := static, owner := srv\<rparr>), w'))
      | FINISH \<Rightarrow> Inr (delete_call i s, w))"

definition proceed ::
  "'w nvme_dev \<Rightarrow> (nat \<Rightarrow> byte) \<Rightarrow> nat \<Rightarrow> async_state \<Rightarrow> 'w \<Rightarrow> (async_state \<times> 'w) outcome" where
  "proceed dev fresh i s w =
     (case heap s i of
        None \<Rightarrow> Inl Use_after_free
      | Some cd \<Rightarrow>
          (case cd_kind cd of
             WriteCall \<Rightarrow> Inr (write_proceed i cd s, w)
           | ReadCall \<Rightarrow> read_proceed dev fresh i cd s w
           | GetStatCall \<Rightarrow> Inr (s, w)
           | ResetStatCall \<Rightarrow> Inr (s, w)))"

section \<open>The handler and its daemon\<close>

text \<open>
  One iteration of the daemon: \<^verbatim>\<open>cq->Next\<close> returns the next completion, and false only when the
  queue is shut down and empty; \<open>None\<close> is an iteration that has to wait.
\<close>

definition daemon_iteration ::
  "'w nvme_dev \<Rightarrow> (nat \<Rightarrow> byte) \<Rightarrow> async_state \<Rightarrow> 'w \<Rightarrow> (async_state \<times> 'w) outcome option" where
  "daemon_iteration dev fresh s w =
     (case completed s of
        [] \<Rightarrow> if cq_down s then Some (Inl Assert_failed) else None
      | (i, ok) # rest \<Rightarrow>
          if \<not> ok then Some (Inl Assert_failed)
          else Some (proceed dev fresh i (s\<lparr>completed := rest\<rparr>) w))"

definition no_calls :: "sync_server \<Rightarrow> async_state" where
  "no_calls srv = \<lparr>heap = (\<lambda>_. None), next_id = 0, requested = [], finishing = [], completed = [],
     cq_down = False, answers = [], owner = srv, read_static = None\<rparr>"

text \<open>\<^verbatim>\<open>RPCHandler<WriteBlockCallData>::exec\<close>, the only handler \<^verbatim>\<open>run\<close> starts.\<close>

definition handler_exec :: "call_kind \<Rightarrow> sync_server \<Rightarrow> async_state" where
  "handler_exec k srv = new_calldata k (no_calls srv)"

text \<open>
  \<^verbatim>\<open>cq->Shutdown()\<close> after the server's own \<^verbatim>\<open>Shutdown\<close>: tags still registered complete with
  \<^verbatim>\<open>ok\<close> false.
\<close>

definition handler_shutdown :: "async_state \<Rightarrow> async_state" where
  "handler_shutdown s =
     s\<lparr>cq_down := True, requested := [], completed := completed s @ map (\<lambda>i. (i, False)) (requested s)\<rparr>"

text \<open>
  The daemon's \<^verbatim>\<open>while (true)\<close> has no way out but a fault; \<open>Blocked\<close> is a queue on which nothing
  more arrives.
\<close>

definition daemon_body ::
  "'w nvme_dev \<Rightarrow> (nat \<Rightarrow> byte) \<Rightarrow> async_state \<times> 'w \<Rightarrow> (async_state \<times> 'w) + fault" where
  "daemon_body dev fresh = (\<lambda>(s, w).
     case daemon_iteration dev fresh s w of
       None \<Rightarrow> Inr Blocked
     | Some (Inl f) \<Rightarrow> Inr f
     | Some (Inr c) \<Rightarrow> Inl c)"

definition daemon_run :: "'w nvme_dev \<Rightarrow> (nat \<Rightarrow> byte) \<Rightarrow> async_state \<times> 'w \<Rightarrow> fault option" where
  "daemon_run dev fresh = loop (daemon_body dev fresh)"

text \<open>A handler pointer of the server: never set, set without a daemon, or with one.\<close>

datatype handler_ptr = Unset | Idle | Serving async_state

text \<open>
  The destructor calls \<^verbatim>\<open>shutdown\<close> through its four handler pointers in this order, and \<^verbatim>\<open>shutdown\<close>
  joins the daemon, which ends only with the process. \<open>None\<close> is a destructor that never returns.
\<close>

fun destroy_handlers ::
  "'w nvme_dev \<Rightarrow> (nat \<Rightarrow> byte) \<Rightarrow> handler_ptr list \<Rightarrow> 'w \<Rightarrow> unit outcome option" where
  "destroy_handlers dev fresh [] w = Some (Inr ())"
| "destroy_handlers dev fresh (Unset # hs) w = Some (Inl Null_pointer)"
| "destroy_handlers dev fresh (Idle # hs) w = destroy_handlers dev fresh hs w"
| "destroy_handlers dev fresh (Serving s # hs) w =
     map_option Inl (daemon_run dev fresh (handler_shutdown s, w))"

text \<open>After \<^verbatim>\<open>run\<close>: the write handler serves, the other three are not set.\<close>

definition run_handlers :: "async_state \<Rightarrow> handler_ptr list" where
  "run_handlers s = [Serving s, Unset, Unset, Unset]"

section \<open>Steps\<close>

inductive async_step ::
  "'w nvme_dev \<Rightarrow> (nat \<Rightarrow> byte) \<Rightarrow> async_state \<times> 'w \<Rightarrow> async_state \<times> 'w \<Rightarrow> bool" for dev fresh where
  call_arrives: "i \<in> set (requested s) \<Longrightarrow> heap s i = Some cd \<Longrightarrow>
     async_step dev fresh (s, w)
       (s\<lparr>requested := remove1 i (requested s), completed := completed s @ [(i, True)],
          heap := (heap s)(i \<mapsto> cd\<lparr>cd_request := rq\<rparr>)\<rparr>, w)"
| answer_sent: "i \<in> set (finishing s) \<Longrightarrow>
     async_step dev fresh (s, w)
       (s\<lparr>finishing := remove1 i (finishing s), completed := completed s @ [(i, True)]\<rparr>, w)"
| serve: "daemon_iteration dev fresh s w = Some (Inr (s', w')) \<Longrightarrow>
     async_step dev fresh (s, w) (s', w')"

inductive async_reachable ::
  "'w nvme_dev \<Rightarrow> (nat \<Rightarrow> byte) \<Rightarrow> sync_server \<Rightarrow> 'w \<Rightarrow> async_state \<times> 'w \<Rightarrow> bool" for dev fresh srv w0 where
  start: "async_reachable dev fresh srv w0 (handler_exec WriteCall srv, w0)"
| step: "async_reachable dev fresh srv w0 c \<Longrightarrow> async_step dev fresh c c' \<Longrightarrow>
     async_reachable dev fresh srv w0 c'"

inductive_cases async_stepE: "async_step dev fresh (s, w) c'"

section \<open>The invariant\<close>

definition live_tags :: "async_state \<Rightarrow> nat list" where
  "live_tags s = requested s @ finishing s @ map fst (completed s)"

definition in_status :: "async_state \<Rightarrow> call_status \<Rightarrow> nat set" where
  "in_status s st = {i. \<exists>cd. heap s i = Some cd \<and> cd_status cd = st}"

definition async_inv :: "async_state \<Rightarrow> bool" where
  "async_inv s \<longleftrightarrow>
     distinct (live_tags s) \<and> set (live_tags s) = dom (heap s) \<and>
     (\<forall>i \<in> dom (heap s). i < next_id s) \<and>
     (\<forall>i cd. heap s i = Some cd \<longrightarrow> cd_kind cd = WriteCall \<and> cd_status cd \<noteq> CREATE) \<and>
     set (requested s) \<subseteq> in_status s PROCESS \<and> set (finishing s) \<subseteq> in_status s FINISH \<and>
     (\<forall>(i, ok) \<in> set (completed s). ok) \<and> \<not> cq_down s \<and>
     (\<exists>p. in_status s PROCESS = {p}) \<and> next_id s = Suc (length (answers s)) \<and>
     (\<forall>(i, reply, st) \<in> set (answers s). reply = \<lparr>end_block = 114514\<rparr> \<and> st = Status_OK)"

lemmas call_defs = set_status_def register_call_def new_calldata_def finish_call_def delete_call_def

lemma async_inv_start: "async_inv (handler_exec WriteCall srv)"
  by (auto simp: async_inv_def handler_exec_def no_calls_def call_defs live_tags_def in_status_def
      Let_def dom_def)

lemma async_invD:
  assumes "async_inv s"
  shows "distinct (live_tags s)" and "set (live_tags s) = dom (heap s)"
    and "heap s i = Some cd \<Longrightarrow> i < next_id s"
    and "heap s i = Some cd \<Longrightarrow> cd_kind cd = WriteCall \<and> cd_status cd \<noteq> CREATE"
    and "i \<in> set (requested s) \<Longrightarrow> i \<in> in_status s PROCESS"
    and "i \<in> set (finishing s) \<Longrightarrow> i \<in> in_status s FINISH"
    and "(i, ok) \<in> set (completed s) \<Longrightarrow> ok" and "\<not> cq_down s"
    and "\<exists>p. in_status s PROCESS = {p}" and "next_id s = Suc (length (answers s))"
    and "(i, reply, st) \<in> set (answers s) \<Longrightarrow> reply = \<lparr>end_block = 114514\<rparr> \<and> st = Status_OK"
  using assms unfolding async_inv_def by (blast+)

lemma distinct_remove1_move:
  "distinct (xs @ ys @ zs) \<Longrightarrow> i \<in> set xs \<Longrightarrow> distinct (remove1 i xs @ ys @ zs @ [i])"
  by auto

lemma call_arrives_inv:
  assumes inv: "async_inv s" and i: "i \<in> set (requested s)" and cd: "heap s i = Some cd"
  shows "async_inv (s\<lparr>requested := remove1 i (requested s), completed := completed s @ [(i, True)],
          heap := (heap s)(i \<mapsto> cd\<lparr>cd_request := rq\<rparr>)\<rparr>)" (is "async_inv ?s")
proof -
  have st: "in_status ?s x = in_status s x" for x
    using cd by (auto simp: in_status_def)
  show ?thesis
    using inv i cd unfolding async_inv_def st
    by (auto simp: live_tags_def dom_def)
qed

lemma answer_sent_inv:
  assumes inv: "async_inv s" and i: "i \<in> set (finishing s)"
  shows "async_inv (s\<lparr>finishing := remove1 i (finishing s), completed := completed s @ [(i, True)]\<rparr>)"
    (is "async_inv ?s")
proof -
  have st: "in_status ?s x = in_status s x" for x by (simp add: in_status_def)
  have "set (remove1 i (finishing s)) \<subseteq> set (finishing s)" by (rule set_remove1_subset)
  then show ?thesis
    using inv i unfolding async_inv_def st
    by (auto simp: live_tags_def)
qed

text \<open>A call that is served: a new call object registers, the old one answers.\<close>

lemma write_process_eq:
  assumes "heap s i = Some cd" and "cd_status cd = PROCESS" and "i \<noteq> next_id s"
  shows "write_proceed i cd s = s\<lparr>heap := (heap s)(next_id s \<mapsto>
             \<lparr>cd_kind = WriteCall, cd_status = PROCESS, cd_request = empty_request\<rparr>,
             i \<mapsto> cd\<lparr>cd_status := FINISH\<rparr>),
           next_id := Suc (next_id s), requested := requested s @ [next_id s],
           finishing := finishing s @ [i],
           answers := answers s @ [(i, \<lparr>end_block = 114514\<rparr>, Status_OK)]\<rparr>"
  using assms by (simp add: write_proceed_def call_defs Let_def fun_upd_twist)

lemma serve_process_inv:
  assumes inv: "async_inv s" and c: "completed s = (i, True) # rest" and cd: "heap s i = Some cd"
    and st: "cd_status cd = PROCESS"
  shows "async_inv (write_proceed i cd (s\<lparr>completed := rest\<rparr>))" (is "async_inv ?s")
proof -
  note d = async_invD [OF inv]
  have i: "i < next_id s" using d(3) [OF cd] .
  have kind: "cd_kind cd = WriteCall" using d(4) [OF cd] by simp
  have fresh: "heap s (next_id s) = None" using d(3) by (metis less_irrefl option.exhaust)
  have eq: "?s = s\<lparr>completed := rest, heap := (heap s)(next_id s \<mapsto>
             \<lparr>cd_kind = WriteCall, cd_status = PROCESS, cd_request = empty_request\<rparr>,
             i \<mapsto> cd\<lparr>cd_status := FINISH\<rparr>),
           next_id := Suc (next_id s), requested := requested s @ [next_id s],
           finishing := finishing s @ [i],
           answers := answers s @ [(i, \<lparr>end_block = 114514\<rparr>, Status_OK)]\<rparr>"
    using write_process_eq [of "s\<lparr>completed := rest\<rparr>" i cd] cd st i by simp
  have "i \<in> in_status s PROCESS" using cd st by (auto simp: in_status_def)
  with d(9) have only: "in_status s PROCESS = {i}" by auto
  have process: "in_status ?s PROCESS = {next_id s}"
    using only i fresh unfolding eq by (auto simp: in_status_def split: if_splits)
  have finish: "in_status ?s FINISH = insert i (in_status s FINISH)"
    using i fresh cd st unfolding eq by (auto simp: in_status_def split: if_splits)
  have nreq: "requested s = []"
  proof -
    have "set (requested s) \<subseteq> {i}" using d(5) only by auto
    moreover have "i \<notin> set (requested s)" using d(1) c by (auto simp: live_tags_def)
    ultimately show ?thesis by (cases "requested s") auto
  qed
  have notin: "next_id s \<notin> set (live_tags s)" using d(2) fresh by auto
  have tags: "distinct (live_tags ?s) \<and> set (live_tags ?s) = dom (heap ?s)"
    using d(1,2) c nreq notin unfolding eq by (auto simp: live_tags_def)
  have small: "\<forall>j \<in> dom (heap ?s). j < next_id ?s"
    using d(3) i unfolding eq by (auto intro: less_SucI)
  have kinds: "\<forall>j cd'. heap ?s j = Some cd' \<longrightarrow> cd_kind cd' = WriteCall \<and> cd_status cd' \<noteq> CREATE"
    using d(4) kind unfolding eq by auto
  have ok: "\<forall>(j, ok) \<in> set rest. ok" using inv c by (auto simp: async_inv_def)
  have ans: "\<forall>(j, reply, st) \<in> set (answers ?s). reply = \<lparr>end_block = 114514\<rparr> \<and> st = Status_OK"
    using inv unfolding eq by (auto simp: async_inv_def)
  show ?thesis
    unfolding async_inv_def process finish
    using tags small kinds ok ans d(6,8,10) nreq unfolding eq by auto
qed

lemma serve_finish_inv:
  assumes inv: "async_inv s" and c: "completed s = (i, True) # rest" and cd: "heap s i = Some cd"
    and st: "cd_status cd = FINISH"
  shows "async_inv (write_proceed i cd (s\<lparr>completed := rest\<rparr>))" (is "async_inv ?s")
proof -
  note d = async_invD [OF inv]
  have eq: "?s = s\<lparr>completed := rest, heap := (heap s)(i := None)\<rparr>"
    using st by (simp add: write_proceed_def delete_call_def)
  have process: "in_status ?s PROCESS = in_status s PROCESS"
    using cd st unfolding eq by (auto simp: in_status_def)
  have finish: "in_status ?s FINISH = in_status s FINISH - {i}"
    unfolding eq by (auto simp: in_status_def)
  have out: "i \<notin> set (requested s)" "i \<notin> set (finishing s)" "i \<notin> fst ` set rest"
    using d(1) c by (auto simp: live_tags_def)
  have "set (live_tags s) = insert i (set (requested s) \<union> set (finishing s) \<union> fst ` set rest)"
    using c by (auto simp: live_tags_def)
  then have tags: "set (live_tags ?s) = dom (heap ?s)"
    using d(2) out unfolding eq by (auto simp: live_tags_def)
  show ?thesis
    unfolding async_inv_def process finish
    using tags inv c out unfolding eq by (auto simp: async_inv_def live_tags_def)
qed

lemma async_serve:
  assumes inv: "async_inv s" and c: "completed s \<noteq> []"
  shows "\<exists>s'. daemon_iteration dev fresh s w = Some (Inr (s', w)) \<and> async_inv s'"
proof -
  obtain i ok rest where ce: "completed s = (i, ok) # rest" using c by (metis list.exhaust surj_pair)
  have ok: "ok" using async_invD(7) [OF inv, of i ok] ce by simp
  have "i \<in> dom (heap s)" using async_invD(2) [OF inv] ce by (auto simp: live_tags_def)
  then obtain cd where cd: "heap s i = Some cd" by blast
  have kind: "cd_kind cd = WriteCall" and "cd_status cd \<noteq> CREATE" using async_invD(4) [OF inv cd] by auto
  then have "cd_status cd = PROCESS \<or> cd_status cd = FINISH" by (cases "cd_status cd") auto
  then have "async_inv (write_proceed i cd (s\<lparr>completed := rest\<rparr>))"
    using serve_process_inv [OF inv] serve_finish_inv [OF inv] ce ok cd by auto
  then show ?thesis
    using ce ok cd kind by (simp add: daemon_iteration_def proceed_def)
qed

lemma async_step_inv:
  assumes "async_step dev fresh c c'" and inv: "async_inv (fst c)"
  shows "async_inv (fst c') \<and> snd c' = snd c"
  using assms
proof (cases rule: async_step.cases)
  case (call_arrives i s cd w rq)
  then show ?thesis using call_arrives_inv inv by simp
next
  case (answer_sent i s w)
  then show ?thesis using answer_sent_inv inv by simp
next
  case (serve s w s' w')
  then have s: "async_inv s" using inv by simp
  then have "completed s \<noteq> []" using async_invD(8) serve by (auto simp: daemon_iteration_def)
  from async_serve [OF s this, of dev fresh w] serve show ?thesis by auto
qed

lemma async_reachable_inv:
  assumes "async_reachable dev fresh srv w0 c"
  shows "async_inv (fst c) \<and> snd c = w0"
  using assms
proof (induction rule: async_reachable.induct)
  case start
  show ?case by (simp add: async_inv_start)
next
  case (step c c')
  then show ?case using async_step_inv by metis
qed

section \<open>The life of a call object\<close>

text \<open>
  What one iteration does to a call object other than the one it serves, and to that one.
\<close>

lemma write_proceed_heap:
  assumes inv: "async_inv s" and cd: "heap s i = Some cd" and st: "cd_status cd \<noteq> CREATE"
    and j: "heap s j = Some cdj" and j': "heap (write_proceed i cd (s\<lparr>completed := rest\<rparr>)) j = Some cdj'"
  shows "cd_status cdj \<le> cd_status cdj'"
proof -
  have neq: "i \<noteq> next_id s" "j \<noteq> next_id s"
    using async_invD(3) [OF inv cd] async_invD(3) [OF inv j] by auto
  show ?thesis
  proof (cases "cd_status cd")
    case PROCESS
    have "heap (write_proceed i cd (s\<lparr>completed := rest\<rparr>)) j =
        (if j = i then Some (cd\<lparr>cd_status := FINISH\<rparr>) else heap s j)"
      using write_process_eq [of "s\<lparr>completed := rest\<rparr>" i cd] cd PROCESS neq by simp
    then show ?thesis using j j' cd PROCESS by (auto simp: less_eq_call_status_def split: if_splits)
  next
    case FINISH
    then show ?thesis using j j' by (auto simp: write_proceed_def delete_call_def split: if_splits)
  qed (use st in simp)
qed

lemma async_step_status_mono:
  assumes "async_step dev fresh (s, w) (s', w')" and inv: "async_inv s"
    and j: "heap s j = Some cd" "heap s' j = Some cd'"
  shows "cd_status cd \<le> cd_status cd'"
  using assms(1)
proof (rule async_stepE)
  fix i cdi rq
  assume "heap s i = Some cdi" and "(s', w') =
    (s\<lparr>requested := remove1 i (requested s), completed := completed s @ [(i, True)],
       heap := (heap s)(i \<mapsto> cdi\<lparr>cd_request := rq\<rparr>)\<rparr>, w)"
  then show ?thesis using j by (auto split: if_splits)
next
  fix i
  assume "(s', w') =
    (s\<lparr>finishing := remove1 i (finishing s), completed := completed s @ [(i, True)]\<rparr>, w)"
  then show ?thesis using j by simp
next
  fix s1 w1
  assume "(s', w') = (s1, w1)" and it: "daemon_iteration dev fresh s w = Some (Inr (s1, w1))"
  then have s1: "s1 = s'" by simp
  obtain i ok rest where c: "completed s = (i, ok) # rest"
    using it async_invD(8) [OF inv] by (auto simp: daemon_iteration_def split: list.splits)
  have "i \<in> dom (heap s)" using async_invD(2) [OF inv] c by (auto simp: live_tags_def)
  then obtain cdi where cdi: "heap s i = Some cdi" by blast
  have "s' = write_proceed i cdi (s\<lparr>completed := rest\<rparr>)" and "cd_status cdi \<noteq> CREATE"
    using it c cdi s1 async_invD(4) [OF inv cdi]
    by (auto simp: daemon_iteration_def proceed_def split: if_splits)
  then show ?thesis using write_proceed_heap [OF inv cdi _ j(1)] j(2) by simp
qed

section \<open>Shutting down\<close>

text \<open>The part of the invariant that a shut-down queue keeps.\<close>

definition drain_inv :: "async_state \<Rightarrow> bool" where
  "drain_inv s \<longleftrightarrow> cq_down s \<and> distinct (map fst (completed s)) \<and>
     fst ` set (completed s) \<subseteq> dom (heap s) \<and> (\<forall>i cd. heap s i = Some cd \<longrightarrow> i < next_id s \<and>
       cd_kind cd = WriteCall \<and> cd_status cd \<noteq> CREATE)"

lemma drain_inv_shutdown:
  assumes "async_inv s"
  shows "drain_inv (handler_shutdown s)"
proof -
  have "distinct (map fst (completed (handler_shutdown s)))"
    using async_invD(1) [OF assms] by (auto simp: handler_shutdown_def live_tags_def comp_def)
  moreover have "fst ` set (completed (handler_shutdown s)) \<subseteq> dom (heap s)"
    using async_invD(2) [OF assms] by (auto simp: handler_shutdown_def live_tags_def)
  ultimately show ?thesis
    using async_invD(3,4) [OF assms] by (auto simp: drain_inv_def handler_shutdown_def)
qed

lemma drain_inv_proceed:
  assumes inv: "drain_inv s" and c: "completed s = (i, ok) # rest" and cd: "heap s i = Some cd"
  shows "drain_inv (write_proceed i cd (s\<lparr>completed := rest\<rparr>)) \<and>
         completed (write_proceed i cd (s\<lparr>completed := rest\<rparr>)) = rest"
proof -
  have h: "i < next_id s" "cd_kind cd = WriteCall" "cd_status cd \<noteq> CREATE"
    using inv cd by (auto simp: drain_inv_def)
  show ?thesis
  proof (cases "cd_status cd")
    case PROCESS
    then show ?thesis
      using write_process_eq [of "s\<lparr>completed := rest\<rparr>" i cd] inv c cd h
      by (auto simp: drain_inv_def less_SucI)
  next
    case FINISH
    then show ?thesis using inv c by (auto simp: write_proceed_def delete_call_def drain_inv_def)
  qed (use h in simp)
qed

lemma drain_body:
  assumes "drain_inv s"
  shows "daemon_body dev fresh (s, w) = Inr Assert_failed \<or>
    (\<exists>s'. daemon_body dev fresh (s, w) = Inl (s', w) \<and> drain_inv s' \<and>
       length (completed s') < length (completed s))"
proof (cases "completed s")
  case Nil
  then show ?thesis using assms by (simp add: daemon_body_def daemon_iteration_def drain_inv_def)
next
  case (Cons e rest)
  obtain i ok where c: "completed s = (i, ok) # rest" using Cons by (cases e) auto
  obtain cd where cd: "heap s i = Some cd" using assms c by (auto simp: drain_inv_def)
  have "cd_kind cd = WriteCall" using assms cd by (simp add: drain_inv_def)
  then show ?thesis
    using drain_inv_proceed [OF assms c cd] c cd
    by (simp add: daemon_body_def daemon_iteration_def proceed_def)
qed

lemma drain_aborts:
  assumes "drain_inv s"
  shows "daemon_run dev fresh (s, w) = Some Assert_failed"
proof -
  let ?R = "measure (\<lambda>(s :: async_state, w). length (completed s))"
  let ?I = "\<lambda>(s, w). drain_inv s"
  have step: "?I c' \<and> (c', c) \<in> ?R" if "?I c" and "daemon_body dev fresh c = Inl c'" for c c'
    using drain_body [of "fst c" dev fresh "snd c"] that by (cases c) auto
  obtain f where f: "daemon_run dev fresh (s, w) = Some f"
    using loop_ends [of ?I "(s, w)" ?R "daemon_body dev fresh"] step assms
    unfolding daemon_run_def by auto
  have "f = Assert_failed"
  proof (rule loop_rule [OF f [unfolded daemon_run_def], where I = ?I])
    fix c r assume "?I c" and "daemon_body dev fresh c = Inr r"
    then show "r = Assert_failed" using drain_body [of "fst c" dev fresh "snd c"] by (cases c) auto
  qed (use assms step in blast)+
  with f show ?thesis by simp
qed

section \<open>A run with one call\<close>

definition called_state :: "sync_server \<Rightarrow> block_request \<Rightarrow> async_state" where
  "called_state srv rq = \<lparr>heap = [0 \<mapsto> \<lparr>cd_kind = WriteCall, cd_status = PROCESS, cd_request = rq\<rparr>],
     next_id = 1, requested = [], finishing = [], completed = [(0, True)], cq_down = False,
     answers = [], owner = srv, read_static = None\<rparr>"

lemma reachable_called: "async_reachable dev fresh srv w (called_state srv rq, w)"
proof -
  have h: "heap (handler_exec WriteCall srv) 0 =
      Some \<lparr>cd_kind = WriteCall, cd_status = PROCESS, cd_request = empty_request\<rparr>"
    and r: "0 \<in> set (requested (handler_exec WriteCall srv))"
    by (simp_all add: handler_exec_def no_calls_def call_defs)
  from async_reachable.step [OF async_reachable.start async_step.call_arrives [OF r h, of dev fresh w rq]]
  show ?thesis by (simp add: handler_exec_def no_calls_def call_defs called_state_def)
qed

lemma called_step:
  "\<exists>s'. async_step dev fresh (called_state srv rq, w) (s', w) \<and>
     heap s' 0 = Some \<lparr>cd_kind = WriteCall, cd_status = FINISH, cd_request = rq\<rparr>"
proof -
  have "\<exists>s'. daemon_iteration dev fresh (called_state srv rq) w = Some (Inr (s', w)) \<and>
     heap s' 0 = Some \<lparr>cd_kind = WriteCall, cd_status = FINISH, cd_request = rq\<rparr>"
    by (simp add: daemon_iteration_def proceed_def write_proceed_def called_state_def call_defs Let_def)
  then show ?thesis by (metis async_step.serve)
qed

lemma reachable_answered:
  "\<exists>s'. async_reachable dev fresh srv w (s', w) \<and>
     heap s' 0 = Some \<lparr>cd_kind = WriteCall, cd_status = FINISH, cd_request = rq\<rparr>"
  by (metis called_step async_reachable.step reachable_called)

section \<open>Properties\<close>



text \<open>the asynchronous \<^verbatim>\<open>WriteBlock\<close> never writes: whatever clients ask for, the world (the
  device included) is the one the server was started in, and every answer is OK with the block
  number 114514.\<close>

theorem async_write_never_writes:
  assumes "async_reachable dev fresh srv w0 (s, w)"
  shows "w = w0 \<and> next_id s = Suc (length (answers s)) \<and>
     (\<forall>(i, reply, st) \<in> set (answers s). reply = \<lparr>end_block = 114514\<rparr> \<and> st = Status_OK)"
proof -
  have "async_inv s" and "w = w0" using async_reachable_inv [OF assms] by simp_all
  then show ?thesis using async_invD(10,11) by blast
qed

theorem async_write_never_writes_witness:
  "\<exists>s :: async_state. heap s 0 = Some \<lparr>cd_kind = WriteCall, cd_status = FINISH, cd_request = mem_request\<rparr> \<and>
     (0 :: int, \<lambda>_ :: nat. [] :: byte list) = (0, \<lambda>_. []) \<and> next_id s = Suc (length (answers s)) \<and>
     (\<forall>(i, reply, st) \<in> set (answers s). reply = \<lparr>end_block = 114514\<rparr> \<and> st = Status_OK)"
proof -
  obtain s' where r: "async_reachable mem_dev (\<lambda>_. 0) mem_server (0, \<lambda>_. []) (s', (0, \<lambda>_. []))"
    and h: "heap s' 0 = Some \<lparr>cd_kind = WriteCall, cd_status = FINISH, cd_request = mem_request\<rparr>"
    by (metis reachable_answered)
  show ?thesis by (rule exI [of _ s'], rule conjI [OF h async_write_never_writes [OF r]])
qed

text \<open>a call object only ever moves forward through \<^verbatim>\<open>CREATE\<close>, \<^verbatim>\<open>PROCESS\<close> and \<^verbatim>\<open>FINISH\<close>
  until it is deleted: no step of a reachable server takes the status of a live object back.\<close>

theorem async_status_forward:
  assumes "async_reachable dev fresh srv w0 (s, w)" and "async_step dev fresh (s, w) (s', w')"
    and "heap s j = Some cd" and "heap s' j = Some cd'"
  shows "cd_status cd \<le> cd_status cd'"
  using async_step_status_mono [OF assms(2) _ assms(3,4)] async_reachable_inv [OF assms(1)] by simp

theorem async_status_forward_witness:
  "\<exists>s'. async_step mem_dev (\<lambda>_. 0) (called_state mem_server mem_request, (0, \<lambda>_. [])) (s', (0, \<lambda>_. [])) \<and>
     (\<exists>cd'. heap s' 0 = Some cd' \<and> PROCESS \<le> cd_status cd')"
proof -
  obtain s' where st: "async_step mem_dev (\<lambda>_. 0) (called_state mem_server mem_request, (0, \<lambda>_. [])) (s', (0, \<lambda>_. []))"
    and h: "heap s' 0 = Some \<lparr>cd_kind = WriteCall, cd_status = FINISH, cd_request = mem_request\<rparr>"
    by (metis called_step)
  have "heap (called_state mem_server mem_request) 0 =
      Some \<lparr>cd_kind = WriteCall, cd_status = PROCESS, cd_request = mem_request\<rparr>"
    by (simp add: called_state_def)
  from async_status_forward [OF reachable_called st this h] show ?thesis
    by (intro exI [of _ s'] conjI exI [of _ "\<lparr>cd_kind = WriteCall, cd_status = FINISH, cd_request = mem_request\<rparr>"])
      (simp_all add: st h)
qed

text \<open>C35: destroying a running asynchronous server always aborts the process: whatever state the
  server has reached, the daemon that the destructor joins runs into its assertion on the shut-down
  queue, so the destructor never completes.\<close>

theorem async_destructor_aborts:
  assumes "async_reachable dev fresh srv w0 (s, w)"
  shows "destroy_handlers dev fresh (run_handlers s) w = Some (Inl Assert_failed)"
proof -
  have "async_inv s" using async_reachable_inv [OF assms] by simp
  from drain_aborts [OF drain_inv_shutdown [OF this], of dev fresh w] show ?thesis
    by (simp add: run_handlers_def)
qed

theorem async_destructor_aborts_witness:
  "destroy_handlers mem_dev (\<lambda>_. 0) (run_handlers (handler_exec WriteCall mem_server)) (0, \<lambda>_. [])
     = Some (Inl Assert_failed)"
  by (rule async_destructor_aborts [OF async_reachable.start])

end
