(* ===== verification/Block_Programs.thy ===== *)
theory Block_Programs
  imports Block_Clients Async_Server
begin

text \<open>
  The programs around the block service: \<^verbatim>\<open>main\<close> of \<^verbatim>\<open>src/src/block_rw_nvmeof.cc\<close>,
  \<^verbatim>\<open>src/src/block_target.cc\<close> and \<^verbatim>\<open>src/src/block_initiator.cc\<close>, from the argument vector on, and the
  constructor and \<^verbatim>\<open>run\<close> of \<^verbatim>\<open>GRPCAsyncServer\<close>. \<open>argv\<close> is the argument vector with the program's name
  first.
\<close>

section \<open>Numbers in the argument vector\<close>

text \<open>\<^verbatim>\<open>atoi\<close>: white space, a sign, digits; a value that is not an \<^verbatim>\<open>int\<close> is undefined.\<close>

definition is_space :: "char \<Rightarrow> bool" where
  "is_space c \<longleftrightarrow> c = CHR '' '' \<or> 9 \<le> (of_char c :: nat) \<and> (of_char c :: nat) \<le> 13"

definition is_digit :: "char \<Rightarrow> bool" where
  "is_digit c \<longleftrightarrow> 48 \<le> (of_char c :: nat) \<and> (of_char c :: nat) \<le> 57"

fun split_sign :: "string \<Rightarrow> bool \<times> string" where
  "split_sign [] = (False, [])"
| "split_sign (c # cs) =
     (if c = CHR ''-'' then (True, cs) else if c = CHR ''+'' then (False, cs) else (False, c # cs))"

definition atoi :: "string \<Rightarrow> int outcome" where
  "atoi s = (case split_sign (dropWhile is_space s) of (negative, t) \<Rightarrow>
     let n = int (digits_value (takeWhile is_digit t)) in checked_int (if negative then - n else n))"

section \<open>The local benchmark\<close>




section \<open>The block server\<close>


text \<open>
  \<^verbatim>\<open>run\<close> does not look at \<^verbatim>\<open>blk_fd\<close>: it listens, starts the write handler and waits on a future that
  nothing completes. The value is the address and the state of the handler's daemon at its start.
\<close>

definition async_run :: "sync_server \<Rightarrow> string \<times> async_state" where
  "async_run srv = (srv_address srv @ '':'' @ to_string (srv_port srv), handler_exec WriteCall srv)"



section \<open>The block initiator\<close>

record initiator_args =
  ia_addr :: string
  ia_port :: int
  ia_data_size :: "int option"     \<comment> \<open>the argument; otherwise it becomes the block size. It is not used\<close>

definition initiator_args_of :: "string list \<Rightarrow> initiator_args outcome" where
  "initiator_args_of argv =
     bindF (if 4 \<le> length argv then atoi (argv ! 3) else Inr 9876) (\<lambda>port.
     bindF (if length argv = 5 then atoi (argv ! 4) else Inr 0) (\<lambda>sz.
     Inr \<lparr>ia_addr = (if 3 \<le> length argv then argv ! 2 else ''0.0.0.0''), ia_port = port,
          ia_data_size = (if length argv = 5 then Some sz else None)\<rparr>))"



section \<open>Lemmas\<close>

lemma nat_to_string_digits: "c \<in> set (nat_to_string n) \<Longrightarrow> is_digit c"
proof (induction n rule: nat_to_string.induct)
  case (1 n)
  have d: "is_digit (char_of (48 + d))" if "d < 10" for d :: nat
    using digit_char_value [OF that] that by (simp only: is_digit_def) simp
  show ?case
    using 1 d [of n] d [of "n mod 10"] by (subst (asm) nat_to_string.simps) (auto split: if_splits)
qed

lemma digit_not_space: "is_digit c \<Longrightarrow> \<not> is_space c"
  by (auto simp: is_digit_def is_space_def)

lemma atoi_nat: "is_int (int n) \<Longrightarrow> atoi (nat_to_string n) = Inr (int n)"
proof -
  assume n: "is_int (int n)"
  have all: "takeWhile is_digit (nat_to_string n) = nat_to_string n"
    by (rule takeWhile_eq_all_conv [THEN iffD2]) (use nat_to_string_digits in blast)
  obtain c cs where s: "nat_to_string n = c # cs" by (metis nat_to_string_not_Nil list.exhaust)
  then have c: "is_digit c" using nat_to_string_digits by (metis list.set_intros(1))
  then have "\<not> is_space c" by (rule digit_not_space)
  moreover have "c \<noteq> CHR ''-''" "c \<noteq> CHR ''+''" using c by (auto simp: is_digit_def)
  ultimately have "split_sign (dropWhile is_space (nat_to_string n)) = (False, nat_to_string n)"
    by (simp add: s)
  then show ?thesis using n by (simp add: atoi_def all)
qed

lemma atoi_neg: "is_int (- int n) \<Longrightarrow> atoi (CHR ''-'' # nat_to_string n) = Inr (- int n)"
proof -
  assume n: "is_int (- int n)"
  have all: "takeWhile is_digit (nat_to_string n) = nat_to_string n"
    by (rule takeWhile_eq_all_conv [THEN iffD2]) (use nat_to_string_digits in blast)
  have "\<not> is_space (CHR ''-'')" by (simp add: is_space_def)
  then show ?thesis using n by (simp add: atoi_def all)
qed










section \<open>Sample machines\<close>



section \<open>Properties\<close>



text \<open>the initiator dials what the target listens on: given the address and the decimal port of a
  server as arguments, \<^verbatim>\<open>atoi\<close> and \<^verbatim>\<open>to_string\<close> cancel out and the address the client builds is the one
  the server's \<^verbatim>\<open>run\<close> builds.\<close>

theorem initiator_dials_target:
  assumes "is_int (srv_port srv)"
  shows "\<exists>a. initiator_args_of [prog, d, srv_address srv, to_string (srv_port srv)] = Inr a \<and>
     ia_addr a @ '':'' @ to_string (ia_port a) = fst (async_run srv)"
proof -
  have "atoi (to_string (srv_port srv)) = Inr (srv_port srv)"
    using assms atoi_nat [of "nat (srv_port srv)"] atoi_neg [of "nat (- srv_port srv)"]
    by (simp add: to_string_def)
  then show ?thesis by (simp add: initiator_args_of_def async_run_def)
qed

theorem initiator_dials_target_witness:
  "\<exists>a. initiator_args_of [''prog'', ''/dev/nvme0n1'', srv_address mem_server, to_string (srv_port mem_server)] = Inr a \<and>
     ia_addr a @ '':'' @ to_string (ia_port a) = fst (async_run mem_server)"
  by (rule initiator_dials_target) (simp add: mem_server_def is_int_def)



end
