(* ===== verification/Call_Pool.thy ===== *)
theory Call_Pool
  imports Nv_Prelude
begin

text \<open>
  Calls that a pool of threads runs side by side on one server object. A call is a state of its own, a
  step of it also reads and changes the shared state, and a schedule says which call makes the next
  step. The locale \<open>call_pool\<close> is the contract under which calls do not disturb each other: a good call
  makes a step and stays good, and so does every other one.
\<close>

section \<open>Schedules\<close>

text \<open>
  \<open>Step k e\<close> is a step of the call \<open>k\<close> to which the environment answers \<open>e\<close>; \<open>Apply f\<close> is a call that
  changes the shared state at once.
\<close>

datatype 'sh pool_event = Step nat int | Apply "'sh \<Rightarrow> 'sh"

fun pool_run ::
  "(nat \<Rightarrow> int \<Rightarrow> 'c \<Rightarrow> 'sh \<Rightarrow> ('c \<times> 'sh) outcome) \<Rightarrow> 'sh pool_event list \<Rightarrow> 'c list \<times> 'sh \<Rightarrow> ('c list \<times> 'sh) outcome" where
  "pool_run step [] (cs, sh) = Inr (cs, sh)"
| "pool_run step (Step k e # evs) (cs, sh) =
     (if k < length cs
      then bindF (step k e (cs ! k) sh) (\<lambda>(c, sh'). pool_run step evs (cs[k := c], sh'))
      else pool_run step evs (cs, sh))"
| "pool_run step (Apply f # evs) (cs, sh) = pool_run step evs (cs, f sh)"

text \<open>How often a call is scheduled, and a schedule whose immediate calls all come from one set.\<close>

fun turns :: "nat \<Rightarrow> 'sh pool_event list \<Rightarrow> nat" where
  "turns k [] = 0"
| "turns k (Step j e # evs) = (if j = k then 1 else 0) + turns k evs"
| "turns k (Apply f # evs) = turns k evs"

definition only :: "('sh \<Rightarrow> 'sh) set \<Rightarrow> 'sh pool_event list \<Rightarrow> bool" where
  "only fs evs \<longleftrightarrow> (\<forall>f. Apply f \<in> set evs \<longrightarrow> f \<in> fs)"

lemma only_simps [simp]:
  "only fs []" "only fs (Step k e # evs) = only fs evs" "only fs (Apply f # evs) \<longleftrightarrow> f \<in> fs \<and> only fs evs"
  by (auto simp: only_def)

lemma pool_run_append:
  "pool_run step (evs @ evs') (cs, sh) = bindF (pool_run step evs (cs, sh)) (pool_run step evs')"
proof (induction step evs "(cs, sh)" arbitrary: cs sh rule: pool_run.induct)
  case (2 step k e evs cs sh)
  then show ?case by (cases "step k e (cs ! k) sh") auto
qed auto

section \<open>Calls that keep out of each other's way\<close>

locale call_pool =
  fixes step :: "nat \<Rightarrow> int \<Rightarrow> 'c \<Rightarrow> 'sh \<Rightarrow> ('c \<times> 'sh) outcome"
    and good :: "nat \<Rightarrow> 'c \<Rightarrow> 'sh \<Rightarrow> bool"
    and harmless :: "('sh \<Rightarrow> 'sh) set"
  assumes step_good: "good k c sh \<Longrightarrow> \<exists>c' sh'. step k e c sh = Inr (c', sh') \<and> good k c' sh'"
    and step_others: "good k c sh \<Longrightarrow> good j d sh \<Longrightarrow> j \<noteq> k \<Longrightarrow> step k e c sh = Inr (c', sh') \<Longrightarrow> good j d sh'"
    and harmless_good: "f \<in> harmless \<Longrightarrow> good k c sh \<Longrightarrow> good k c (f sh)"
begin

definition all_good :: "'c list \<Rightarrow> 'sh \<Rightarrow> bool" where
  "all_good cs sh \<longleftrightarrow> (\<forall>k < length cs. good k (cs ! k) sh)"

lemma all_good_step:
  assumes "all_good cs sh" and "k < length cs"
  shows "\<exists>c sh'. step k e (cs ! k) sh = Inr (c, sh') \<and> all_good (cs[k := c]) sh'"
proof -
  from assms step_good obtain c sh' where st: "step k e (cs ! k) sh = Inr (c, sh')" and g: "good k c sh'"
    unfolding all_good_def by blast
  have "good j (cs[k := c] ! j) sh'" if "j < length cs" for j
    using that assms st g step_others [of k "cs ! k" sh j "cs ! j" e c sh']
    by (cases "j = k") (auto simp: all_good_def)
  with st show ?thesis by (auto simp: all_good_def)
qed

lemma run_good:
  assumes "all_good cs sh" and "only harmless evs"
  shows "\<exists>cs' sh'. pool_run step evs (cs, sh) = Inr (cs', sh') \<and> all_good cs' sh' \<and> length cs' = length cs"
  using assms
proof (induction evs arbitrary: cs sh)
  case (Cons ev evs)
  show ?case
  proof (cases ev)
    case (Step k e)
    show ?thesis
    proof (cases "k < length cs")
      case True
      from all_good_step [OF Cons.prems(1) this] obtain c sh' where
        st: "step k e (cs ! k) sh = Inr (c, sh')" and g: "all_good (cs[k := c]) sh'" by blast
      from Cons.IH [OF g] Cons.prems(2) show ?thesis using True st Step by auto
    qed (use Cons Step in auto)
  next
    case (Apply f)
    then have "all_good cs (f sh)" using Cons.prems harmless_good by (auto simp: all_good_def)
    with Cons Apply show ?thesis by auto
  qed
qed auto

end

section \<open>Calls that come to an end\<close>

text \<open>A measure that every step of a call decreases bounds how often the call can be scheduled.\<close>

locale ending_calls =
  fixes step :: "nat \<Rightarrow> int \<Rightarrow> 'c \<Rightarrow> 'sh \<Rightarrow> ('c \<times> 'sh) outcome"
    and left :: "'c \<Rightarrow> nat"
  assumes step_left: "step k e c sh = Inr (c', sh') \<Longrightarrow> left c' \<le> left c - 1"
begin

lemma run_left:
  assumes "pool_run step evs (cs, sh) = Inr (cs', sh')" and "k < length cs"
  shows "length cs' = length cs \<and> left (cs' ! k) \<le> left (cs ! k) - turns k evs"
  using assms
proof (induction evs arbitrary: cs sh)
  case (Cons ev evs)
  show ?case
  proof (cases ev)
    case (Step j e)
    show ?thesis
    proof (cases "j < length cs")
      case True
      with Cons.prems Step obtain c sh1 where st: "step j e (cs ! j) sh = Inr (c, sh1)" and
        run: "pool_run step evs (cs[j := c], sh1) = Inr (cs', sh')" by (auto simp: bindF_eq_Inr)
      from Cons.IH [OF run] Cons.prems(2) step_left [OF st] show ?thesis
        by (cases "j = k") (auto simp: Step)
    qed (use Cons Step in auto)
  qed (use Cons in auto)
qed auto

end

end
