(* ===== verification/Block_Concurrent.thy ===== *)
theory Block_Concurrent
  imports Call_Pool Block_Service "HOL-Library.Multiset"
begin

text \<open>
  Concurrent calls of \<^verbatim>\<open>GRPCSyncServer::WriteBlock\<close> (\<^verbatim>\<open>src/src/net.h\<close>). A synchronous gRPC server runs
  the calls of its clients on a pool of threads, and the handler keeps its command in a function-local
  \<^verbatim>\<open>static struct nvme_io_args args\<close>, which all of them share. Here the handler is split at its accesses
  to \<^verbatim>\<open>args\<close>: each is one step, and a schedule interleaves the steps of the calls. \<open>Block_Service\<close> has the
  same handler as one function, for calls that do not overlap; the two agree (\<open>one_call_eq_handler\<close>).
  \<^verbatim>\<open>ReadBlock\<close> has the same text but static arguments of its own, so that its calls are steps of the same
  kind among themselves. The counters of the server and the clock are left out here.
\<close>

section \<open>Shared state and calls\<close>

text \<open>The members of \<^verbatim>\<open>args\<close> that a call assigns, the heap, and the commands the device has executed.\<close>

record wb_shared =
  sa_slba :: u64
  sa_nlb :: u16
  sa_data_len :: u32
  sa_data :: nat                          \<comment> \<open>an address\<close>
  sa_heap :: "nat \<Rightarrow> byte list option"
  sa_next :: nat                          \<comment> \<open>the next address of the allocator\<close>
  sa_log :: "io_args list"

datatype wb_pc =
    At_slba | At_nlb | At_len | At_alloc | At_copy | At_command
  | At_free int                           \<comment> \<open>the local \<^verbatim>\<open>err\<close>\<close>
  | At_reply int
  | Answered grpc_status block_reply

record wb_call =
  wc_req :: block_request
  wc_len :: int                           \<comment> \<open>the local \<^verbatim>\<open>actual_len\<close>\<close>
  wc_pc :: wb_pc

definition new_call :: "block_request \<Rightarrow> wb_call" where
  "new_call rq = \<lparr>wc_req = rq, wc_len = 0, wc_pc = At_slba\<rparr>"

section \<open>The steps of a call\<close>

text \<open>
  \<open>fresh\<close> is the contents of new memory, \<open>e\<close> the result of the device. A freed address that is used or
  freed again is a fault, as is a command whose length exceeds the block that \<^verbatim>\<open>args.data\<close> points to.
\<close>

definition wb_alloc :: "(nat \<Rightarrow> byte) \<Rightarrow> wb_call \<Rightarrow> wb_shared \<Rightarrow> (wb_call \<times> wb_shared) outcome" where
  "wb_alloc fresh c sh =
     (if wc_len c < 0 then Inl Bad_alloc
      else Inr (c\<lparr>wc_pc := At_copy\<rparr>,
        sh\<lparr>sa_data := sa_next sh, sa_next := Suc (sa_next sh),
           sa_heap := (sa_heap sh)(sa_next sh \<mapsto> map fresh [0..<nat (wc_len c)])\<rparr>))"

definition wb_copy :: "wb_call \<Rightarrow> wb_shared \<Rightarrow> (wb_call \<times> wb_shared) outcome" where
  "wb_copy c sh =
     (case sa_heap sh (sa_data sh) of
        None \<Rightarrow> Inl Use_after_free
      | Some b \<Rightarrow>
          let d = req_data (wc_req c) in
          if length d > length b then Inl Heap_overflow
          else Inr (c\<lparr>wc_pc := At_command\<rparr>,
            sh\<lparr>sa_heap := (sa_heap sh)(sa_data sh \<mapsto> d @ drop (length d) b)\<rparr>))"

definition wb_command :: "int \<Rightarrow> sync_server \<Rightarrow> wb_call \<Rightarrow> wb_shared \<Rightarrow> (wb_call \<times> wb_shared) outcome" where
  "wb_command e srv c sh =
     (case sa_heap sh (sa_data sh) of
        None \<Rightarrow> Inl Use_after_free
      | Some b \<Rightarrow>
          if length b < unat (sa_data_len sh) then Inl Overread
          else Inr (c\<lparr>wc_pc := At_free e\<rparr>,
            sh\<lparr>sa_log := sa_log sh @ [\<lparr>io_slba = sa_slba sh, io_nlb = sa_nlb sh, io_data_len = sa_data_len sh,
                 io_data = take (unat (sa_data_len sh)) b, io_fd = blk_fd srv,
                 io_nsid = namespace_id (blk_config srv)\<rparr>]\<rparr>))"

definition wb_free :: "int \<Rightarrow> wb_call \<Rightarrow> wb_shared \<Rightarrow> (wb_call \<times> wb_shared) outcome" where
  "wb_free e c sh =
     (case sa_heap sh (sa_data sh) of
        None \<Rightarrow> Inl Use_after_free
      | Some b \<Rightarrow> Inr (c\<lparr>wc_pc := At_reply e\<rparr>, sh\<lparr>sa_heap := (sa_heap sh)(sa_data sh := None)\<rparr>))"

definition wb_reply :: "int \<Rightarrow> wb_call \<Rightarrow> wb_shared \<Rightarrow> (wb_call \<times> wb_shared) outcome" where
  "wb_reply e c sh =
     (if e \<noteq> 0 then Inr (c\<lparr>wc_pc := Answered (Status_UNKNOWN ''nvme write error'') \<lparr>end_block = 0\<rparr>\<rparr>, sh)
      else bindF (checked_int (start_block (wc_req c) + uint (sa_nlb sh))) (\<lambda>b.
        Inr (c\<lparr>wc_pc := Answered Status_OK \<lparr>end_block = b\<rparr>\<rparr>, sh)))"

text \<open>A call that has been answered has no step; it is left as it is.\<close>

definition wb_step ::
  "(nat \<Rightarrow> byte) \<Rightarrow> sync_server \<Rightarrow> int \<Rightarrow> wb_call \<Rightarrow> wb_shared \<Rightarrow> (wb_call \<times> wb_shared) outcome" where
  "wb_step fresh srv e c sh =
     (let lbs = logical_block_size (blk_config srv) in
      case wc_pc c of
        At_slba \<Rightarrow> Inr (c\<lparr>wc_pc := At_nlb\<rparr>, sh\<lparr>sa_slba := word_of_int (start_block (wc_req c))\<rparr>)
      | At_nlb \<Rightarrow> bindF (blk_nlb (req_size (wc_req c)) lbs) (\<lambda>nlb. Inr (c\<lparr>wc_pc := At_len\<rparr>, sh\<lparr>sa_nlb := nlb\<rparr>))
      | At_len \<Rightarrow> bindF (blk_actual_len (sa_nlb sh) lbs) (\<lambda>len.
          Inr (c\<lparr>wc_pc := At_alloc, wc_len := len\<rparr>, sh\<lparr>sa_data_len := word_of_int len\<rparr>))
      | At_alloc \<Rightarrow> wb_alloc fresh c sh
      | At_copy \<Rightarrow> wb_copy c sh
      | At_command \<Rightarrow> wb_command e srv c sh
      | At_free err \<Rightarrow> wb_free err c sh
      | At_reply err \<Rightarrow> wb_reply err c sh
      | Answered _ _ \<Rightarrow> Inr (c, sh))"

section \<open>Schedules\<close>

text \<open>A schedule names, step by step, the call that runs and what the device would answer it.\<close>

type_synonym wb_sys = "wb_call list \<times> wb_shared"

definition wb_run :: "(nat \<Rightarrow> byte) \<Rightarrow> sync_server \<Rightarrow> (nat \<times> int) list \<Rightarrow> wb_sys \<Rightarrow> wb_sys outcome" where
  "wb_run fresh srv sched = pool_run (\<lambda>k. wb_step fresh srv) (map (\<lambda>(k, e). Step k e) sched)"

lemma wb_run_simps [simp]:
  "wb_run fresh srv [] (cs, sh) = Inr (cs, sh)"
  "wb_run fresh srv ((k, e) # sched) (cs, sh) =
     (if k < length cs
      then bindF (wb_step fresh srv e (cs ! k) sh) (\<lambda>(c, sh'). wb_run fresh srv sched (cs[k := c], sh'))
      else wb_run fresh srv sched (cs, sh))"
  by (simp_all add: wb_run_def)

fun idle :: "wb_pc \<Rightarrow> bool" where
  "idle At_slba = True"
| "idle (Answered s r) = True"
| "idle _ = False"

text \<open>A schedule without overlapping calls: a call runs only while no other is under way.\<close>

definition alone :: "nat \<Rightarrow> wb_call list \<Rightarrow> bool" where
  "alone k cs \<longleftrightarrow> (\<forall>j < length cs. j \<noteq> k \<longrightarrow> idle (wc_pc (cs ! j)))"

fun no_overlap :: "(nat \<Rightarrow> byte) \<Rightarrow> sync_server \<Rightarrow> (nat \<times> int) list \<Rightarrow> wb_sys \<Rightarrow> bool" where
  "no_overlap fresh srv [] (cs, sh) = True"
| "no_overlap fresh srv ((k, e) # sched) (cs, sh) =
     (if k < length cs
      then alone k cs \<and> (case wb_step fresh srv e (cs ! k) sh of
             Inl _ \<Rightarrow> True | Inr (c, sh') \<Rightarrow> no_overlap fresh srv sched (cs[k := c], sh'))
      else no_overlap fresh srv sched (cs, sh))"

text \<open>However the calls are interleaved, eight steps answer a call (unless the process has ended before).\<close>

fun wb_rank :: "wb_pc \<Rightarrow> nat" where
  "wb_rank At_slba = 8"
| "wb_rank At_nlb = 7"
| "wb_rank At_len = 6"
| "wb_rank At_alloc = 5"
| "wb_rank At_copy = 4"
| "wb_rank At_command = 3"
| "wb_rank (At_free e) = 2"
| "wb_rank (At_reply e) = 1"
| "wb_rank (Answered s r) = 0"

interpretation write_end: ending_calls "\<lambda>k. wb_step fresh srv" "\<lambda>c. wb_rank (wc_pc c)" for fresh srv
proof
  fix e c sh c' sh'
  assume "wb_step fresh srv e c sh = Inr (c', sh')"
  then show "wb_rank (wc_pc c') \<le> wb_rank (wc_pc c) - 1"
    by (cases "wc_pc c")
      (auto simp: wb_step_def wb_alloc_def wb_copy_def wb_command_def wb_free_def wb_reply_def Let_def bindF_eq_Inr
        split: if_splits option.splits)
qed

lemma write_block_answers:
  assumes run: "wb_run fresh srv sched (map new_call rqs, sh) = Inr (cs, sh')" and k: "k < length rqs"
    and turns: "8 \<le> length (filter (\<lambda>x. fst x = k) sched)"
  shows "\<exists>st r. wc_pc (cs ! k) = Answered st r"
proof -
  let ?evs = "map (\<lambda>(k, e). Step k e) sched :: wb_shared pool_event list"
  have t: "turns k ?evs = length (filter (\<lambda>x. fst x = k) sched)" by (induction sched) auto
  have "wb_rank (wc_pc (cs ! k)) \<le> wb_rank (wc_pc (map new_call rqs ! k)) - turns k ?evs"
    using write_end.run_left [OF run [unfolded wb_run_def]] k by simp
  then have "wb_rank (wc_pc (cs ! k)) = 0" using turns k t by (simp add: new_call_def)
  then show ?thesis by (cases "wc_pc (cs ! k)") auto
qed

section \<open>Where a call is, when it is alone\<close>

definition wf_call :: "sync_server \<Rightarrow> wb_call \<Rightarrow> bool" where
  "wf_call srv c \<longleftrightarrow> wf_request (wc_req c) (logical_block_size (blk_config srv)) \<and>
     int (length (req_data (wc_req c))) \<le>
       ceil_div (req_size (wc_req c)) (logical_block_size (blk_config srv)) * logical_block_size (blk_config srv)"

text \<open>The command the request stands for, and its length in bytes.\<close>

definition own_args :: "(nat \<Rightarrow> byte) \<Rightarrow> sync_server \<Rightarrow> block_request \<Rightarrow> io_args" where
  "own_args fresh srv rq =
     blk_args fresh (blk_fd srv, namespace_id (blk_config srv)) rq (logical_block_size (blk_config srv))"

definition own_len :: "sync_server \<Rightarrow> block_request \<Rightarrow> int" where
  "own_len srv rq = ceil_div (req_size rq) (logical_block_size (blk_config srv)) * logical_block_size (blk_config srv)"

text \<open>The members of \<^verbatim>\<open>args\<close> that the call has assigned so far are those of its own command.\<close>

definition wb_phase :: "(nat \<Rightarrow> byte) \<Rightarrow> sync_server \<Rightarrow> wb_call \<Rightarrow> wb_shared \<Rightarrow> bool" where
  "wb_phase fresh srv c sh =
     (let a = own_args fresh srv (wc_req c); len = own_len srv (wc_req c);
          slba = (sa_slba sh = io_slba a); nlb = (sa_nlb sh = io_nlb a); dlen = (sa_data_len sh = io_data_len a) in
      case wc_pc c of
        At_slba \<Rightarrow> True
      | At_nlb \<Rightarrow> slba
      | At_len \<Rightarrow> slba \<and> nlb
      | At_alloc \<Rightarrow> slba \<and> nlb \<and> dlen \<and> wc_len c = len
      | At_copy \<Rightarrow> slba \<and> nlb \<and> dlen \<and> sa_heap sh (sa_data sh) = Some (map fresh [0..<nat len])
      | At_command \<Rightarrow> slba \<and> nlb \<and> dlen \<and> sa_heap sh (sa_data sh) = Some (io_data a)
      | At_free e \<Rightarrow> nlb \<and> sa_heap sh (sa_data sh) \<noteq> None
      | At_reply e \<Rightarrow> nlb
      | Answered st r \<Rightarrow> st = Status_OK \<longrightarrow> end_block r =
          start_block (wc_req c) + int (nblocks (wc_req c) (logical_block_size (blk_config srv))) - 1)"

fun holds_block :: "wb_pc \<Rightarrow> bool" where
  "holds_block At_copy = True"
| "holds_block At_command = True"
| "holds_block (At_free e) = True"
| "holds_block _ = False"

fun issued :: "wb_pc \<Rightarrow> bool" where
  "issued (At_free e) = True"
| "issued (At_reply e) = True"
| "issued (Answered st r) = True"
| "issued _ = False"

lemma own_args_facts:
  assumes "wf_call srv c"
  shows "blk_nlb (req_size (wc_req c)) (logical_block_size (blk_config srv)) = Inr (io_nlb (own_args fresh srv (wc_req c)))"
    and "blk_actual_len (io_nlb (own_args fresh srv (wc_req c))) (logical_block_size (blk_config srv)) =
      Inr (own_len srv (wc_req c))"
    and "io_data_len (own_args fresh srv (wc_req c)) = word_of_int (own_len srv (wc_req c))"
    and "0 \<le> own_len srv (wc_req c)"
    and "unat (io_data_len (own_args fresh srv (wc_req c))) = nat (own_len srv (wc_req c))"
    and "length (io_data (own_args fresh srv (wc_req c))) = nat (own_len srv (wc_req c))"
    and "length (req_data (wc_req c)) \<le> nat (own_len srv (wc_req c))"
    and "checked_int (start_block (wc_req c) + uint (io_nlb (own_args fresh srv (wc_req c)))) =
      Inr (start_block (wc_req c) + int (nblocks (wc_req c) (logical_block_size (blk_config srv))) - 1)"
proof -
  let ?rq = "wc_req c" and ?lbs = "logical_block_size (blk_config srv)"
  have wf: "wf_request ?rq ?lbs" and fits: "int (length (req_data ?rq)) \<le> own_len srv ?rq"
    using assms by (simp_all add: wf_call_def own_len_def)
  note ext = wf_request_extent [OF wf]
  show "blk_nlb (req_size ?rq) ?lbs = Inr (io_nlb (own_args fresh srv ?rq))"
    using ext(1) by (simp add: own_args_def blk_args_def)
  show "blk_actual_len (io_nlb (own_args fresh srv ?rq)) ?lbs = Inr (own_len srv ?rq)"
    using ext(3) by (simp add: own_args_def blk_args_def own_len_def)
  show dl: "io_data_len (own_args fresh srv ?rq) = word_of_int (own_len srv ?rq)"
    by (simp add: own_args_def blk_args_def own_len_def)
  show nn: "0 \<le> own_len srv ?rq" using fits by simp
  have "own_len srv ?rq < 2 ^ 32" using wf by (simp add: wf_request_def own_len_def is_int_def)
  then have "uint (word_of_int (own_len srv ?rq) :: u32) = own_len srv ?rq"
    using nn by (simp add: uint_word_of_int_eq take_bit_int_eq_self)
  then show "unat (io_data_len (own_args fresh srv ?rq)) = nat (own_len srv ?rq)"
    by (simp only: dl unat_eq_nat_uint)
  show fit: "length (req_data ?rq) \<le> nat (own_len srv ?rq)" using fits by simp
  show "length (io_data (own_args fresh srv ?rq)) = nat (own_len srv ?rq)"
    using fit by (simp add: own_args_def blk_args_def own_len_def)
  have "int (nblocks ?rq ?lbs) = ceil_div (req_size ?rq) ?lbs" using ext(4) by (simp add: nblocks_def)
  moreover have "uint (io_nlb (own_args fresh srv ?rq)) = ceil_div (req_size ?rq) ?lbs - 1"
    using ext(2) by (simp only: own_args_def blk_args_def io_args.simps)
  ultimately show "checked_int (start_block ?rq + uint (io_nlb (own_args fresh srv ?rq))) =
      Inr (start_block ?rq + int (nblocks ?rq ?lbs) - 1)"
    using wf by (simp add: wf_request_def add_diff_eq)
qed

text \<open>
  One step of a call that has been alone so far: it does not fail, stays in its phase, frees what it
  allocated, and issues its own command, once.
\<close>

definition wb_good_step :: "(nat \<Rightarrow> byte) \<Rightarrow> sync_server \<Rightarrow> wb_call \<Rightarrow> wb_shared \<Rightarrow> wb_call \<Rightarrow> wb_shared \<Rightarrow> bool" where
  "wb_good_step fresh srv c sh c' sh' \<longleftrightarrow>
     wc_req c' = wc_req c \<and> wb_phase fresh srv c' sh' \<and>
     dom (sa_heap sh') = (if holds_block (wc_pc c') then {sa_data sh'} else {}) \<and>
     sa_log sh' = sa_log sh @ (if wc_pc c = At_command then [own_args fresh srv (wc_req c)] else []) \<and>
     (issued (wc_pc c') \<longleftrightarrow> issued (wc_pc c) \<or> wc_pc c = At_command)"

lemma own_buffer:
  assumes "wf_call srv c"
  shows "req_data (wc_req c) @ drop (length (req_data (wc_req c))) (map fresh [0..<nat (own_len srv (wc_req c))]) =
    io_data (own_args fresh srv (wc_req c))"
  using own_args_facts(4,7) [OF assms] by (simp add: own_args_def blk_args_def own_len_def drop_map)

lemma own_command:
  assumes "wf_call srv c" and "a = own_args fresh srv (wc_req c)"
  shows "\<lparr>io_slba = io_slba a, io_nlb = io_nlb a, io_data_len = io_data_len a,
    io_data = take (unat (io_data_len a)) (io_data a), io_fd = blk_fd srv, io_nsid = namespace_id (blk_config srv)\<rparr> = a"
  unfolding assms(2) own_args_facts(5) [OF assms(1)] using own_args_facts(6) [OF assms(1), of fresh]
  by (simp add: own_args_def blk_args_def)

lemma wb_step_alone:
  assumes wf: "wf_call srv c" and ph: "wb_phase fresh srv c sh"
    and heap: "dom (sa_heap sh) = (if holds_block (wc_pc c) then {sa_data sh} else {})"
  shows "\<exists>c' sh'. wb_step fresh srv e c sh = Inr (c', sh') \<and> wb_good_step fresh srv c sh c' sh'"
proof -
  note nlb = own_args_facts(1) [OF wf, of fresh] and len = own_args_facts(2,3) [OF wf, of fresh]
    and dlen = own_args_facts(5,6) [OF wf, of fresh] and last = own_args_facts(8) [OF wf, of fresh]
    and room = own_args_facts(4,7) [OF wf]
  let ?a = "own_args fresh srv (wc_req c)"
  have slba: "io_slba ?a = word_of_int (start_block (wc_req c))" by (simp add: own_args_def blk_args_def)
  show ?thesis
  proof (cases "wc_pc c")
    case At_slba
    then show ?thesis using heap by (simp add: wb_step_def wb_good_step_def wb_phase_def slba)
  next
    case At_nlb
    then show ?thesis using heap ph nlb by (simp add: wb_step_def wb_good_step_def wb_phase_def)
  next
    case At_len
    then show ?thesis using heap ph len by (simp add: wb_step_def wb_good_step_def wb_phase_def Let_def)
  next
    case At_alloc
    then show ?thesis
      using heap ph room by (simp add: wb_step_def wb_alloc_def wb_good_step_def wb_phase_def Let_def)
  next
    case At_copy
    then show ?thesis
      using own_buffer [OF wf, of fresh] heap ph room
      by (simp add: wb_step_def wb_copy_def wb_good_step_def wb_phase_def Let_def)
  next
    case At_command
    then show ?thesis
      using own_command [OF wf refl, of fresh] heap ph dlen
      by (simp add: wb_step_def wb_command_def wb_good_step_def wb_phase_def Let_def)
  next
    case (At_free err)
    then obtain b where b: "sa_heap sh (sa_data sh) = Some b" using ph by (auto simp: wb_phase_def Let_def)
    let ?sh = "sh\<lparr>sa_heap := (sa_heap sh)(sa_data sh := None)\<rparr>"
    have "wb_step fresh srv e c sh = Inr (c\<lparr>wc_pc := At_reply err\<rparr>, ?sh)"
      using At_free b by (simp add: wb_step_def wb_free_def)
    moreover have "wb_good_step fresh srv c sh (c\<lparr>wc_pc := At_reply err\<rparr>) ?sh"
      using At_free heap ph by (simp add: wb_good_step_def wb_phase_def Let_def)
    ultimately show ?thesis by blast
  next
    case (At_reply e)
    then show ?thesis
      using heap ph last
      by (cases "e = 0") (simp_all add: wb_step_def wb_reply_def wb_good_step_def wb_phase_def Let_def checked_int_def)
  next
    case (Answered st r)
    then show ?thesis using heap ph by (simp add: wb_step_def wb_good_step_def)
  qed
qed

section \<open>The invariant of a server without overlapping calls\<close>

definition wb_inv :: "(nat \<Rightarrow> byte) \<Rightarrow> sync_server \<Rightarrow> wb_call list \<Rightarrow> wb_shared \<Rightarrow> bool" where
  "wb_inv fresh srv cs sh \<longleftrightarrow>
     (\<forall>c \<in> set cs. wf_call srv c \<and> wb_phase fresh srv c sh) \<and>
     (\<exists>k. alone k cs) \<and>
     dom (sa_heap sh) = (if \<exists>c \<in> set cs. holds_block (wc_pc c) then {sa_data sh} else {}) \<and>
     mset (sa_log sh) = image_mset (\<lambda>c. own_args fresh srv (wc_req c)) (filter_mset (\<lambda>c. issued (wc_pc c)) (mset cs))"

lemma idle_phase: "idle (wc_pc c) \<Longrightarrow> wb_phase fresh srv c sh \<Longrightarrow> wb_phase fresh srv c sh'"
  by (cases "wc_pc c") (simp_all add: wb_phase_def Let_def)

lemma idle_not_holding: "idle pc \<Longrightarrow> \<not> holds_block pc"
  by (cases pc) simp_all

lemma alone_holding:
  assumes "alone k cs" and "k < length cs"
  shows "(\<exists>c \<in> set cs. holds_block (wc_pc c)) \<longleftrightarrow> holds_block (wc_pc (cs ! k))"
proof
  assume "\<exists>c \<in> set cs. holds_block (wc_pc c)"
  then obtain j where "j < length cs" "holds_block (wc_pc (cs ! j))" by (auto simp: in_set_conv_nth)
  then show "holds_block (wc_pc (cs ! k))" using assms(1) idle_not_holding by (cases "j = k") (auto simp: alone_def)
qed (use assms(2) in auto)

lemma alone_update: "alone k cs \<Longrightarrow> alone k (cs[k := c])"
  by (auto simp: alone_def)

text \<open>The multiset of issued commands grows by the command of a step that issues one.\<close>

lemma issued_update:
  assumes "k < length cs" and "wc_req c' = wc_req (cs ! k)"
    and "issued (wc_pc c') \<longleftrightarrow> issued (wc_pc (cs ! k)) \<or> new" and "new \<longrightarrow> \<not> issued (wc_pc (cs ! k))"
  shows "image_mset (\<lambda>c. f (wc_req c)) (filter_mset (\<lambda>c. issued (wc_pc c)) (mset (cs[k := c']))) =
     image_mset (\<lambda>c. f (wc_req c)) (filter_mset (\<lambda>c. issued (wc_pc c)) (mset cs)) +
     (if new then {#f (wc_req (cs ! k))#} else {#})"
proof -
  have "mset cs = add_mset (cs ! k) (mset cs - {#cs ! k#})" using assms(1) by simp
  then obtain M where M: "mset cs = add_mset (cs ! k) M" by blast
  then have "mset (cs[k := c']) = add_mset c' M" using assms(1) by (simp add: mset_update)
  with M assms(2-4) show ?thesis by simp
qed

lemma wb_inv_step:
  assumes inv: "wb_inv fresh srv cs sh" and k: "k < length cs" and al: "alone k cs"
  shows "\<exists>c' sh'. wb_step fresh srv e (cs ! k) sh = Inr (c', sh') \<and> wb_inv fresh srv (cs[k := c']) sh'"
proof -
  let ?c = "cs ! k"
  have c: "wf_call srv ?c" "wb_phase fresh srv ?c sh" using inv k by (simp_all add: wb_inv_def)
  have heap: "dom (sa_heap sh) = (if holds_block (wc_pc ?c) then {sa_data sh} else {})"
    using inv by (simp add: wb_inv_def alone_holding [OF al k])
  from wb_step_alone [OF c heap] obtain c' sh' where st: "wb_step fresh srv e ?c sh = Inr (c', sh')"
    and g: "wb_good_step fresh srv ?c sh c' sh'" by blast
  have wf: "wf_call srv c'" using c(1) g by (simp add: wf_call_def wb_good_step_def)
  have all: "\<forall>d \<in> set (cs[k := c']). wf_call srv d \<and> wb_phase fresh srv d sh'"
  proof
    fix d assume "d \<in> set (cs[k := c'])"
    then obtain j where j: "j < length cs" "d = cs[k := c'] ! j" by (auto simp: in_set_conv_nth)
    show "wf_call srv d \<and> wb_phase fresh srv d sh'"
    proof (cases "j = k")
      case True
      then show ?thesis using j k wf g by (simp add: wb_good_step_def)
    next
      case False
      then have "idle (wc_pc d)" "d \<in> set cs" using al j by (auto simp: alone_def)
      then show ?thesis using inv idle_phase by (auto simp: wb_inv_def)
    qed
  qed
  have heap': "dom (sa_heap sh') = (if \<exists>d \<in> set (cs[k := c']). holds_block (wc_pc d) then {sa_data sh'} else {})"
    using g alone_holding [OF alone_update [OF al, of c']] k by (simp add: wb_good_step_def)
  have "mset (sa_log sh') = image_mset (\<lambda>c. own_args fresh srv (wc_req c))
      (filter_mset (\<lambda>c. issued (wc_pc c)) (mset (cs[k := c'])))"
    using g inv issued_update [OF k, of c' "wc_pc ?c = At_command" "own_args fresh srv"]
    by (auto simp: wb_good_step_def wb_inv_def)
  with all heap' alone_update [OF al, of c'] have "wb_inv fresh srv (cs[k := c']) sh'"
    unfolding wb_inv_def by blast
  with st show ?thesis by blast
qed

lemma wb_run_inv:
  "wb_inv fresh srv cs sh \<Longrightarrow> no_overlap fresh srv sched (cs, sh) \<Longrightarrow>
     \<exists>cs' sh'. wb_run fresh srv sched (cs, sh) = Inr (cs', sh') \<and> wb_inv fresh srv cs' sh' \<and>
       map wc_req cs' = map wc_req cs"
proof (induction sched arbitrary: cs sh)
  case (Cons a sched)
  obtain k e where a: "a = (k, e)" by (cases a)
  show ?case
  proof (cases "k < length cs")
    case True
    with Cons.prems(2) a have al: "alone k cs" by simp
    from wb_inv_step [OF Cons.prems(1) True al, of e] obtain c' sh' where
      st: "wb_step fresh srv e (cs ! k) sh = Inr (c', sh')" and inv: "wb_inv fresh srv (cs[k := c']) sh'" by blast
    have "wc_req c' = wc_req (cs ! k)" using st
      by (auto simp: wb_step_def wb_alloc_def wb_copy_def wb_command_def wb_free_def wb_reply_def Let_def
          bindF_eq_Inr split: wb_pc.splits if_splits option.splits)
    then have "map wc_req (cs[k := c']) = map wc_req cs" by (metis list_update_id map_update)
    moreover have "no_overlap fresh srv sched (cs[k := c'], sh')" using Cons.prems(2) a True st by simp
    ultimately show ?thesis using Cons.IH [OF inv] a True st by simp
  next
    case False
    then show ?thesis using Cons a by simp
  qed
qed simp

definition idle_args :: "wb_shared \<Rightarrow> bool" where
  "idle_args sh \<longleftrightarrow> sa_heap sh = Map.empty \<and> sa_log sh = []"

lemma wb_inv_start:
  assumes "\<forall>rq \<in> set rqs. wf_call srv (new_call rq)" and "idle_args sh"
  shows "wb_inv fresh srv (map new_call rqs) sh"
proof -
  have "alone 0 (map new_call rqs)" by (simp add: alone_def new_call_def)
  moreover have "filter_mset (\<lambda>c. issued (wc_pc c)) (mset (map new_call rqs)) = {#}"
    by (auto simp: new_call_def)
  ultimately show ?thesis
    using assms by (auto simp: wb_inv_def idle_args_def wb_phase_def new_call_def)
qed

section \<open>Executing a schedule\<close>









section \<open>Two calls at once\<close>



lemma new_call_req [simp]: "wc_req (new_call rq) = rq"
  by (simp add: new_call_def)






section \<open>Properties\<close>

text \<open>The state of a process that has served no call: nothing is allocated, no command was issued.\<close>

definition fresh_shared :: wb_shared where
  "fresh_shared = \<lparr>sa_slba = 0, sa_nlb = 0, sa_data_len = 0, sa_data = 0, sa_heap = Map.empty, sa_next = 0, sa_log = []\<rparr>"


text \<open>C15: calls of \<^verbatim>\<open>WriteBlock\<close> that do not overlap do not disturb each other: in any order in which they
  run, no step fails; the commands issued are exactly those of the requests that got so far, one each;
  an OK answer carries the last block of its own request; and when no call is under way nothing is
  allocated.\<close>

theorem write_block_serial:
  assumes "\<forall>rq \<in> set rqs. wf_call srv (new_call rq)" and "idle_args sh"
    and "no_overlap fresh srv sched (map new_call rqs, sh)"
  shows "\<exists>cs sh'. wb_run fresh srv sched (map new_call rqs, sh) = Inr (cs, sh') \<and> map wc_req cs = rqs \<and>
     mset (sa_log sh') = image_mset (\<lambda>c. own_args fresh srv (wc_req c)) (filter_mset (\<lambda>c. issued (wc_pc c)) (mset cs)) \<and>
     (\<forall>c \<in> set cs. \<forall>r. wc_pc c = Answered Status_OK r \<longrightarrow> end_block r =
        start_block (wc_req c) + int (nblocks (wc_req c) (logical_block_size (blk_config srv))) - 1) \<and>
     ((\<forall>c \<in> set cs. idle (wc_pc c)) \<longrightarrow> sa_heap sh' = Map.empty)"
proof -
  from wb_run_inv [OF wb_inv_start [OF assms(1,2)] assms(3)] obtain cs sh' where
    run: "wb_run fresh srv sched (map new_call rqs, sh) = Inr (cs, sh')" and inv: "wb_inv fresh srv cs sh'"
    and rq: "map wc_req cs = rqs" by (auto simp: comp_def)
  have "\<forall>c \<in> set cs. \<forall>r. wc_pc c = Answered Status_OK r \<longrightarrow> end_block r =
        start_block (wc_req c) + int (nblocks (wc_req c) (logical_block_size (blk_config srv))) - 1"
    using inv by (auto simp: wb_inv_def wb_phase_def Let_def)
  moreover have "sa_heap sh' = Map.empty" if "\<forall>c \<in> set cs. idle (wc_pc c)"
  proof -
    have "\<not> (\<exists>c \<in> set cs. holds_block (wc_pc c))" using that idle_not_holding by blast
    then show ?thesis using inv by (simp add: wb_inv_def)
  qed
  ultimately show ?thesis using run rq inv unfolding wb_inv_def by blast
qed


definition other_request :: block_request where
  "other_request = \<lparr>req_size = 2, start_block = 40, req_data = [20, 21]\<rparr>"

lemma sample_calls: "wf_call mem_server (new_call mem_request)" "wf_call mem_server (new_call other_request)"
  by (simp_all add: wf_call_def wf_request_def mem_request_def other_request_def mem_server_def is_int_def ceil_div_def)

theorem write_block_serial_witness:
  "\<exists>cs sh'. wb_run (\<lambda>_. 99) mem_server (replicate 8 (1, 0) @ replicate 8 (0, 0))
       (map new_call [mem_request, other_request], fresh_shared) = Inr (cs, sh') \<and>
     map wc_req cs = [mem_request, other_request]"
proof -
  have ov: "no_overlap (\<lambda>_. 99) mem_server (replicate 8 (1, 0) @ replicate 8 (0, 0))
      (map new_call [mem_request, other_request], fresh_shared)"
    by code_simp
  have wf: "\<forall>rq \<in> set [mem_request, other_request]. wf_call mem_server (new_call rq)" using sample_calls by simp
  have "idle_args fresh_shared" by (simp add: idle_args_def fresh_shared_def)
  from write_block_serial [OF wf this ov] show ?thesis by (elim exE conjE, intro exI conjI)
qed


end
