(* ===== verification/File_Service.thy ===== *)
theory File_Service
  imports Block_Service
begin

text \<open>
  The file service, \<^verbatim>\<open>GRPCFileServerSync\<close> of \<^verbatim>\<open>src/src/file_target.cc\<close>: its parameters and
  statistics and the two blocking handlers \<^verbatim>\<open>AppendOneLargeFile\<close> and \<^verbatim>\<open>AppendManySmallFiles\<close>.
  The kernel's calls are the fields of \<open>posix\<close>, the two ends of a gRPC stream those of \<open>stream\<close>;
  \<open>fs_law\<close> states their effect on what can be observed of the world (\<open>fview\<close>). The handlers that
  use io_uring are in the theory \<open>Uring_Service\<close>.
\<close>

section \<open>Messages, state and the calls of the kernel\<close>

record file_request =
  filename :: string
  file_data :: "byte list"

record file_reply =
  reply_stats :: string

record parameters =
  p_blk_size :: int
  p_buffer_size :: int
  p_queue_depth :: int
  p_poll_threshold :: int
  p_n :: int
  p_nfiles :: int

datatype oflag = O_APPEND | O_DIRECT | O_WRONLY | O_RDWR | O_CREAT | O_TRUNC

record 'w posix =
  px_now :: "'w \<Rightarrow> int \<times> 'w"
  px_open :: "string \<Rightarrow> oflag list \<Rightarrow> 'w \<Rightarrow> int \<times> 'w"
  px_memalign :: "u64 \<Rightarrow> u64 \<Rightarrow> 'w \<Rightarrow> int \<times> 'w"
  px_write :: "int \<Rightarrow> byte list \<Rightarrow> 'w \<Rightarrow> int \<times> 'w"
  px_close :: "int \<Rightarrow> 'w \<Rightarrow> int \<times> 'w"

record 'w stream =
  st_read :: "'w \<Rightarrow> file_request option \<times> 'w"   \<comment> \<open>\<open>None\<close>: \<^verbatim>\<open>Read\<close> returned false\<close>
  st_write :: "file_reply \<Rightarrow> 'w \<Rightarrow> bool \<times> 'w"

record file_server =
  fs_address :: string
  fs_port :: int
  queue_depth :: int
  poll_threshold :: int
  ft_allocation :: int
  ft_rw :: int
  ft_total :: int
  ft_open :: int
  buffer_size :: u64
  blk_size :: int
  fs_N :: int
  fs_fn :: int
  dummy :: int

definition empty_file_request :: file_request where
  "empty_file_request = \<lparr>filename = [], file_data = []\<rparr>"

definition empty_file_reply :: file_reply where
  "empty_file_reply = \<lparr>reply_stats = []\<rparr>"

section \<open>Parameters and statistics\<close>

text \<open>The 32-bit \<^verbatim>\<open>buffer_size\<close> of the message is sign-extended to a \<^verbatim>\<open>size_t\<close>.\<close>

definition SetParameters :: "parameters \<Rightarrow> file_server \<Rightarrow> grpc_status \<times> file_server" where
  "SetParameters ps srv =
     (Status_OK, srv\<lparr>buffer_size := word_of_int (p_buffer_size ps), queue_depth := p_queue_depth ps,
        poll_threshold := p_poll_threshold ps, blk_size := p_blk_size ps, fs_N := p_n ps,
        fs_fn := p_nfiles ps\<rparr>)"

definition file_GetStat :: "file_server \<Rightarrow> grpc_status \<times> string" where
  "file_GetStat srv = (Status_OK, render_stat
     [(''time on allocation is '', ft_allocation srv), (''time on writes is '', ft_rw srv),
      (''time on open files is '', ft_open srv), (''total time on server is '', ft_total srv)])"

definition file_ResetStat :: "file_server \<Rightarrow> grpc_status \<times> file_server" where
  "file_ResetStat srv =
     (Status_OK, srv\<lparr>ft_allocation := 0, ft_rw := 0, ft_total := 0, ft_open := 0\<rparr>)"

definition file_run :: "(string \<Rightarrow> 'w \<Rightarrow> 'w) \<Rightarrow> file_server \<Rightarrow> 'w \<Rightarrow> int \<times> 'w" where
  "file_run serve srv w = (0, serve (fs_address srv @ '':'' @ to_string (fs_port srv)) w)"

section \<open>AppendOneLargeFile\<close>

text \<open>
  The body of the \<^verbatim>\<open>do ... while (stream->Read(&request))\<close> loop: the variables are the server, the
  current request and the world. \<^verbatim>\<open>err = write(...)\<close> converts the result to \<^verbatim>\<open>int\<close>.
\<close>

definition large_body ::
  "'w posix \<Rightarrow> 'w stream \<Rightarrow> int \<Rightarrow> file_server \<times> file_request \<times> 'w \<Rightarrow>
     (file_server \<times> file_request \<times> 'w) + ((grpc_status \<times> file_server) \<times> 'w) outcome" where
  "large_body px st fd = (\<lambda>(srv, request, w).
     case px_now px w of (allocation_start, w1) \<Rightarrow>
     case px_memalign px (word_of_int (blk_size srv)) (buffer_size srv) w1 of (err, w2) \<Rightarrow>
     if err \<noteq> 0 then Inr (Inr ((Status_UNKNOWN ''posix_memalign failed'', srv), w2))
     else (case memcpy_from (c_str (file_data request)) (unat (buffer_size srv)) of
       Inl f \<Rightarrow> Inr (Inl f)
     | Inr buffer \<Rightarrow>
         (case px_now px w2 of (t1, w3) \<Rightarrow>
          case px_now px w3 of (rw_start, w4) \<Rightarrow>
          case px_write px fd buffer w4 of (n, w5) \<Rightarrow>
          case px_now px w5 of (t2, w6) \<Rightarrow>
          let srv' = srv\<lparr>ft_allocation := ft_allocation srv + (t1 - allocation_start),
                         ft_rw := ft_rw srv + (t2 - rw_start)\<rparr> in
          if to_int32 n < 0 then Inr (Inr ((Status_UNKNOWN ''write data failed'', srv'), w6))
          else case st_write st empty_file_reply w6 of (_, w7) \<Rightarrow>
          (case st_read st w7 of
             (Some request', w8) \<Rightarrow> Inl (srv', request', w8)
           | (None, w8) \<Rightarrow>
               (case px_close px fd w8 of (_, w9) \<Rightarrow> Inr (Inr ((Status_OK, srv'), w9)))))))"

text \<open>The first \<^verbatim>\<open>Read\<close> is not checked, nor is the descriptor of \<^verbatim>\<open>open\<close>.\<close>

definition AppendOneLargeFile ::
  "'w posix \<Rightarrow> 'w stream \<Rightarrow> file_server \<Rightarrow> 'w \<Rightarrow> ((grpc_status \<times> file_server) \<times> 'w) outcome option" where
  "AppendOneLargeFile px st srv w =
     (case st_read st w of (r, w1) \<Rightarrow>
      let request = (case r of Some rq \<Rightarrow> rq | None \<Rightarrow> empty_file_request) in
      case px_open px (filename request) [O_APPEND, O_DIRECT, O_WRONLY, O_CREAT, O_TRUNC] w1 of (fd, w2) \<Rightarrow>
      loop (large_body px st fd) (srv, request, w2))"

section \<open>AppendManySmallFiles\<close>

text \<open>
  One request of the \<^verbatim>\<open>while\<close> loop: \<open>Inl\<close> to go on, \<open>Inr\<close> to return from the handler. The time of
  a write that failed is not counted.
\<close>

definition small_request ::
  "'w posix \<Rightarrow> 'w stream \<Rightarrow> file_server \<Rightarrow> file_request \<Rightarrow> 'w \<Rightarrow>
     (file_server \<times> 'w) + ((grpc_status \<times> file_server) \<times> 'w) outcome" where
  "small_request px st srv request w =
     (case px_now px w of (open_start, w1) \<Rightarrow>
      case px_open px (filename request) [O_APPEND, O_DIRECT, O_WRONLY, O_CREAT] w1 of (fd, w2) \<Rightarrow>
      case px_now px w2 of (t1, w3) \<Rightarrow>
      let srv1 = srv\<lparr>ft_open := ft_open srv + (t1 - open_start)\<rparr> in
      if fd < 0 then Inr (Inr ((Status_UNKNOWN ''open file failed'', srv1), w3))
      else case px_now px w3 of (allocation_start, w4) \<Rightarrow>
      case px_memalign px (word_of_int (blk_size srv)) (buffer_size srv) w4 of (err, w5) \<Rightarrow>
      if err \<noteq> 0 then Inr (Inr ((Status_UNKNOWN ''posix_memalign failed'', srv1), w5))
      else (case memcpy_from (c_str (file_data request)) (unat (buffer_size srv)) of
        Inl f \<Rightarrow> Inr (Inl f)
      | Inr buffer \<Rightarrow>
          (case px_now px w5 of (t2, w6) \<Rightarrow>
           let srv2 = srv1\<lparr>ft_allocation := ft_allocation srv1 + (t2 - allocation_start)\<rparr> in
           case px_now px w6 of (rw_start, w7) \<Rightarrow>
           case px_write px fd buffer w7 of (n, w8) \<Rightarrow>
           if (word_of_int n :: u64) \<noteq> buffer_size srv
           then Inr (Inr ((Status_UNKNOWN ''write data failed'', srv2), w8))
           else case px_now px w8 of (t3, w9) \<Rightarrow>
           let srv3 = srv2\<lparr>ft_rw := ft_rw srv2 + (t3 - rw_start)\<rparr> in
           case px_close px fd w9 of (c, w10) \<Rightarrow>
           if c \<noteq> 0 then Inr (Inr ((Status_UNKNOWN ''close fd failed'', srv3), w10))
           else case st_write st empty_file_reply w10 of (_, w11) \<Rightarrow> Inl (srv3, w11))))"

definition small_body ::
  "'w posix \<Rightarrow> 'w stream \<Rightarrow> int \<Rightarrow> file_server \<times> 'w \<Rightarrow>
     (file_server \<times> 'w) + ((grpc_status \<times> file_server) \<times> 'w) outcome" where
  "small_body px st total_start = (\<lambda>(srv, w).
     case st_read st w of
       (Some request, w1) \<Rightarrow> small_request px st srv request w1
     | (None, w1) \<Rightarrow>
         (case px_now px w1 of (t, w2) \<Rightarrow>
          Inr (Inr ((Status_OK, srv\<lparr>ft_total := ft_total srv + (t - total_start)\<rparr>), w2))))"

definition AppendManySmallFiles ::
  "'w posix \<Rightarrow> 'w stream \<Rightarrow> file_server \<Rightarrow> 'w \<Rightarrow> ((grpc_status \<times> file_server) \<times> 'w) outcome option" where
  "AppendManySmallFiles px st srv w =
     (case px_now px w of (total_start, w1) \<Rightarrow> loop (small_body px st total_start) (srv, w1))"

section \<open>What the handlers rely on\<close>

text \<open>What can be observed of the world: files, open descriptors, the stream, live heap blocks.\<close>

record fview =
  fv_files :: "string \<Rightarrow> byte list option"
  fv_fds :: "int \<Rightarrow> string option"
  fv_pending :: "file_request list"
  fv_replies :: "file_reply list"
  fv_live :: nat

definition open_view :: "string \<Rightarrow> oflag list \<Rightarrow> int \<Rightarrow> fview \<Rightarrow> fview" where
  "open_view name flags fd v = v\<lparr>fv_fds := (fv_fds v)(fd \<mapsto> name),
     fv_files := (fv_files v)(name \<mapsto> (if O_TRUNC \<in> set flags then [] else
        (case fv_files v name of Some c \<Rightarrow> c | None \<Rightarrow> [])))\<rparr>"

definition append_view :: "string \<Rightarrow> byte list \<Rightarrow> fview \<Rightarrow> fview" where
  "append_view name bs v = v\<lparr>fv_files := (fv_files v)(name \<mapsto>
     (case fv_files v name of Some c \<Rightarrow> c | None \<Rightarrow> []) @ bs)\<rparr>"

text \<open>
  The kernel and the stream, on a file system with room: calls succeed, a new descriptor is not in
  use, a write of at most the kernel's limit stores all its bytes at the end of the file, a stream
  delivers its requests in order. An alignment must be a power of two and a multiple of the size of
  a pointer.
\<close>

abbreviation RW_MAX :: nat where "RW_MAX \<equiv> 0x7ffff000"

definition valid_align :: "u64 \<Rightarrow> bool" where
  "valid_align a \<longleftrightarrow> (\<exists>k \<in> {3..<64}. a = 2 ^ k)"

definition fs_law :: "'w posix \<Rightarrow> 'w stream \<Rightarrow> ('w \<Rightarrow> fview) \<Rightarrow> bool" where
  "fs_law px st fv \<longleftrightarrow>
     (\<forall>w t w'. px_now px w = (t, w') \<longrightarrow> fv w' = fv w) \<and>
     (\<forall>name flags w fd w'. px_open px name flags w = (fd, w') \<longrightarrow>
        0 \<le> fd \<and> fv_fds (fv w) fd = None \<and> fv w' = open_view name flags fd (fv w)) \<and>
     (\<forall>a n w e w'. px_memalign px a n w = (e, w') \<longrightarrow> valid_align a \<longrightarrow>
        e = 0 \<and> fv w' = (fv w)\<lparr>fv_live := Suc (fv_live (fv w))\<rparr>) \<and>
     (\<forall>fd buf w name n w'. px_write px fd buf w = (n, w') \<longrightarrow>
        fv_fds (fv w) fd = Some name \<longrightarrow> length buf \<le> RW_MAX \<longrightarrow>
        n = int (length buf) \<and> fv w' = append_view name buf (fv w)) \<and>
     (\<forall>fd w c w'. px_close px fd w = (c, w') \<longrightarrow>
        c = 0 \<and> fv w' = (fv w)\<lparr>fv_fds := (fv_fds (fv w))(fd := None)\<rparr>) \<and>
     (\<forall>w r w'. st_read st w = (r, w') \<longrightarrow> fv_pending (fv w) = [] \<longrightarrow> r = None \<and> fv w' = fv w) \<and>
     (\<forall>w rq rs r w'. st_read st w = (r, w') \<longrightarrow> fv_pending (fv w) = rq # rs \<longrightarrow>
        r = Some rq \<and> fv w' = (fv w)\<lparr>fv_pending := rs\<rparr>) \<and>
     (\<forall>rp w b w'. st_write st rp w = (b, w') \<longrightarrow>
        fv w' = (fv w)\<lparr>fv_replies := fv_replies (fv w) @ [rp]\<rparr>)"

lemma fs_lawD:
  assumes "fs_law px st fv"
  shows "px_now px w = (t, w') \<Longrightarrow> fv w' = fv w"
    and "px_open px name flags w = (fd, w') \<Longrightarrow>
       0 \<le> fd \<and> fv_fds (fv w) fd = None \<and> fv w' = open_view name flags fd (fv w)"
    and "px_memalign px a n w = (e, w') \<Longrightarrow> valid_align a \<Longrightarrow>
       e = 0 \<and> fv w' = (fv w)\<lparr>fv_live := Suc (fv_live (fv w))\<rparr>"
    and "px_write px fd buf w = (k, w') \<Longrightarrow> fv_fds (fv w) fd = Some name \<Longrightarrow> length buf \<le> RW_MAX \<Longrightarrow>
       k = int (length buf) \<and> fv w' = append_view name buf (fv w)"
    and "px_close px fd w = (c, w') \<Longrightarrow>
       c = 0 \<and> fv w' = (fv w)\<lparr>fv_fds := (fv_fds (fv w))(fd := None)\<rparr>"
    and "st_read st w = (r, w') \<Longrightarrow> fv_pending (fv w) = [] \<Longrightarrow> r = None \<and> fv w' = fv w"
    and "st_read st w = (r, w') \<Longrightarrow> fv_pending (fv w) = rq # rs \<Longrightarrow>
       r = Some rq \<and> fv w' = (fv w)\<lparr>fv_pending := rs\<rparr>"
    and "st_write st rp w = (b, w') \<Longrightarrow> fv w' = (fv w)\<lparr>fv_replies := fv_replies (fv w) @ [rp]\<rparr>"
  using assms unfolding fs_law_def by metis+

section \<open>The abstract service\<close>

text \<open>
  What one request asks for: the first \<^verbatim>\<open>buffer_size\<close> bytes of its data at the end of a file. Both
  handlers answer every request once and leak the buffer of every request.
\<close>

definition chunk :: "nat \<Rightarrow> file_request \<Rightarrow> byte list" where
  "chunk bs rq = take bs (file_data rq)"

definition answer_view :: "fview \<Rightarrow> fview" where
  "answer_view v = v\<lparr>fv_replies := fv_replies v @ [empty_file_reply], fv_live := Suc (fv_live v)\<rparr>"

definition large_spec1 :: "nat \<Rightarrow> string \<Rightarrow> file_request \<Rightarrow> fview \<Rightarrow> fview" where
  "large_spec1 bs name rq v = answer_view (append_view name (chunk bs rq) v)"

definition enough_data :: "nat \<Rightarrow> file_request \<Rightarrow> bool" where
  "enough_data bs rq \<longleftrightarrow> bs \<le> length (file_data rq)"

definition wf_params :: "file_server \<Rightarrow> bool" where
  "wf_params srv \<longleftrightarrow> valid_align (word_of_int (blk_size srv)) \<and> unat (buffer_size srv) \<le> RW_MAX"

lemma rw_result: "k \<le> RW_MAX \<Longrightarrow> \<not> to_int32 (int k) < 0"
proof -
  assume "k \<le> RW_MAX"
  then have "is_int (int k)" by (simp add: is_int_def)
  then show ?thesis by simp
qed

lemma memcpy_chunk:
  "enough_data bs rq \<Longrightarrow> memcpy_from (c_str (file_data rq)) bs = Inr (chunk bs rq)"
  by (simp add: memcpy_from_string enough_data_def chunk_def)

text \<open>One iteration: what it does to the view, and how it goes on.\<close>

lemma large_body_step:
  assumes law: "fs_law px st fv" and wf: "wf_params srv" and fd: "fv_fds (fv w) fd = Some name"
    and rq: "enough_data (unat (buffer_size srv)) rq"
  shows "\<exists>srv' w'. wf_params srv' \<and> buffer_size srv' = buffer_size srv \<and> ft_total srv' = ft_total srv \<and>
     (case fv_pending (fv w) of
        r # rs \<Rightarrow> large_body px st fd (srv, rq, w) = Inl (srv', r, w') \<and>
          fv w' = (large_spec1 (unat (buffer_size srv)) name rq (fv w))\<lparr>fv_pending := rs\<rparr>
      | [] \<Rightarrow> large_body px st fd (srv, rq, w) = Inr (Inr ((Status_OK, srv'), w')) \<and>
          fv w' = (large_spec1 (unat (buffer_size srv)) name rq (fv w))
                    \<lparr>fv_fds := (fv_fds (fv w))(fd := None)\<rparr>)"
proof -
  note l = fs_lawD [OF law]
  let ?bs = "unat (buffer_size srv)"
  obtain t0 w1 where c0: "px_now px w = (t0, w1)" by (metis prod.exhaust)
  obtain e w2 where c1: "px_memalign px (word_of_int (blk_size srv)) (buffer_size srv) w1 = (e, w2)"
    by (metis prod.exhaust)
  obtain t1 w3 where c2: "px_now px w2 = (t1, w3)" by (metis prod.exhaust)
  obtain t2 w4 where c3: "px_now px w3 = (t2, w4)" by (metis prod.exhaust)
  obtain n w5 where c4: "px_write px fd (chunk ?bs rq) w4 = (n, w5)" by (metis prod.exhaust)
  obtain t3 w6 where c5: "px_now px w5 = (t3, w6)" by (metis prod.exhaust)
  obtain b w7 where c6: "st_write st empty_file_reply w6 = (b, w7)" by (metis prod.exhaust)
  obtain r w8 where c7: "st_read st w7 = (r, w8)" by (metis prod.exhaust)
  obtain c w9 where c8: "px_close px fd w8 = (c, w9)" by (metis prod.exhaust)
  have e: "e = 0" and v2: "fv w2 = (fv w)\<lparr>fv_live := Suc (fv_live (fv w))\<rparr>"
    using l(3) [OF c1] l(1) [OF c0] wf by (auto simp: wf_params_def)
  have v4: "fv w4 = fv w2" using l(1) [OF c2] l(1) [OF c3] by simp
  have len: "length (chunk ?bs rq) \<le> RW_MAX" using wf by (simp add: chunk_def wf_params_def min.coboundedI2)
  then have n: "n = int (length (chunk ?bs rq))" and v5: "fv w5 = append_view name (chunk ?bs rq) (fv w4)"
    using l(4) [OF c4] fd v2 v4 by auto
  have v7: "fv w7 = large_spec1 ?bs name rq (fv w)"
    using l(8) [OF c6] l(1) [OF c5] v5 v4 v2
    by (simp add: large_spec1_def answer_view_def append_view_def)
  let ?srv = "srv\<lparr>ft_allocation := ft_allocation srv + (t1 - t0), ft_rw := ft_rw srv + (t3 - t2)\<rparr>"
  have body: "large_body px st fd (srv, rq, w) =
      (case r of Some request' \<Rightarrow> Inl (?srv, request', w8) | None \<Rightarrow> Inr (Inr ((Status_OK, ?srv), w9)))"
    using rw_result [OF len]
    by (simp add: large_body_def c0 c1 e memcpy_chunk [OF rq] c2 c3 c4 c5 n c6 c7 c8 Let_def
        split: option.split)
  have pend: "fv_pending (fv w7) = fv_pending (fv w)" and fds: "fv_fds (fv w7) = fv_fds (fv w)"
    by (simp_all add: v7 large_spec1_def answer_view_def append_view_def)
  show ?thesis
  proof (cases "fv_pending (fv w)")
    case Nil
    then have "r = None" "fv w8 = fv w7" using l(6) [OF c7] pend by auto
    then show ?thesis using Nil body l(5) [OF c8] v7 fds wf
      by (intro exI [of _ ?srv] exI [of _ w9]) (simp add: wf_params_def)
  next
    case (Cons rq' rs)
    then have "r = Some rq'" "fv w8 = (fv w7)\<lparr>fv_pending := rs\<rparr>" using l(7) [OF c7] pend by auto
    then show ?thesis using Cons body v7 wf
      by (intro exI [of _ ?srv] exI [of _ w8]) (simp add: wf_params_def)
  qed
qed

definition large_spec :: "nat \<Rightarrow> string \<Rightarrow> file_request list \<Rightarrow> fview \<Rightarrow> fview" where
  "large_spec bs name rqs v = fold (large_spec1 bs name) rqs v"

lemma large_spec_closed:
  "large_spec bs name (rq # rqs) v =
     v\<lparr>fv_files := (fv_files v)(name \<mapsto> (case fv_files v name of Some c \<Rightarrow> c | None \<Rightarrow> []) @
          concat (map (chunk bs) (rq # rqs))),
       fv_replies := fv_replies v @ replicate (length (rq # rqs)) empty_file_reply,
       fv_live := fv_live v + length (rq # rqs)\<rparr>"
proof (induction rqs arbitrary: rq v)
  case Nil
  show ?case
    by (rule fview.equality)
      (simp_all add: large_spec_def large_spec1_def answer_view_def append_view_def fun_upd_def)
next
  case (Cons rq' rqs)
  have "large_spec bs name (rq # rq' # rqs) v = large_spec bs name (rq' # rqs) (large_spec1 bs name rq v)"
    by (simp add: large_spec_def)
  also have "\<dots> = v\<lparr>fv_files := (fv_files v)(name \<mapsto> (case fv_files v name of Some c \<Rightarrow> c | None \<Rightarrow> []) @
          concat (map (chunk bs) (rq # rq' # rqs))),
       fv_replies := fv_replies v @ replicate (length (rq # rq' # rqs)) empty_file_reply,
       fv_live := fv_live v + length (rq # rq' # rqs)\<rparr>"
    unfolding Cons.IH
    by (rule fview.equality) (auto simp: large_spec1_def answer_view_def append_view_def fun_eq_iff)
  finally show ?case .
qed

lemma large_loop:
  assumes law: "fs_law px st fv" and wf: "wf_params srv" and fd: "fv_fds (fv w) fd = Some name"
    and rqs: "\<forall>rq \<in> set (rq # fv_pending (fv w)). enough_data (unat (buffer_size srv)) rq"
  shows "\<exists>srv' w'. loop (large_body px st fd) (srv, rq, w) = Some (Inr ((Status_OK, srv'), w')) \<and>
     ft_total srv' = ft_total srv \<and>
     fv w' = (large_spec (unat (buffer_size srv)) name (rq # fv_pending (fv w)) (fv w))
               \<lparr>fv_pending := [], fv_fds := (fv_fds (fv w))(fd := None)\<rparr>"
  using assms(2-)
proof (induction "fv_pending (fv w)" arbitrary: srv rq w)
  case Nil
  from large_body_step [OF law Nil.prems(1,2), of rq] Nil obtain srv' w' where
    "large_body px st fd (srv, rq, w) = Inr (Inr ((Status_OK, srv'), w'))" "ft_total srv' = ft_total srv"
    "fv w' = (large_spec1 (unat (buffer_size srv)) name rq (fv w))\<lparr>fv_fds := (fv_fds (fv w))(fd := None)\<rparr>"
    by (auto split: list.splits)
  with Nil.hyps [symmetric] show ?case
    by (intro exI [of _ srv'] exI [of _ w'] conjI fview.equality)
      (simp_all add: loop_exit large_spec_def large_spec1_def answer_view_def append_view_def fun_upd_def)
next
  case (Cons r rs)
  from large_body_step [OF law Cons.prems(1,2), of rq] Cons.prems(3) Cons.hyps(2) [symmetric]
  obtain srv1 w1 where
    b: "large_body px st fd (srv, rq, w) = Inl (srv1, r, w1)" and
    k: "wf_params srv1" "buffer_size srv1 = buffer_size srv" "ft_total srv1 = ft_total srv" and
    v: "fv w1 = (large_spec1 (unat (buffer_size srv)) name rq (fv w))\<lparr>fv_pending := rs\<rparr>"
    by auto
  have f1: "fv_fds (fv w1) = fv_fds (fv w)" and p1: "fv_pending (fv w1) = rs"
    by (simp_all add: v large_spec1_def answer_view_def append_view_def)
  obtain srv' w' where
    "loop (large_body px st fd) (srv1, r, w1) = Some (Inr ((Status_OK, srv'), w'))"
    "ft_total srv' = ft_total srv1"
    "fv w' = (large_spec (unat (buffer_size srv)) name (r # rs) (fv w1))
               \<lparr>fv_pending := [], fv_fds := (fv_fds (fv w))(fd := None)\<rparr>"
    using Cons.hyps(1) [of w1 srv1 r] p1 f1 k Cons.prems(2,3) Cons.hyps(2) [symmetric] by auto
  then show ?case
    using k v Cons.hyps(2) [symmetric] loop_next [of "large_body px st fd", OF b]
    by (intro exI [of _ srv'] exI [of _ w'] conjI fview.equality)
      (simp_all add: large_spec_closed large_spec1_def answer_view_def append_view_def)
qed

section \<open>Many small files\<close>

definition small_spec1 :: "nat \<Rightarrow> file_request \<Rightarrow> fview \<Rightarrow> fview" where
  "small_spec1 bs rq v = answer_view (append_view (filename rq) (chunk bs rq) v)"

lemma small_request_step:
  assumes law: "fs_law px st fv" and wf: "wf_params srv"
    and rq: "enough_data (unat (buffer_size srv)) rq"
  shows "\<exists>srv' w'. wf_params srv' \<and> buffer_size srv' = buffer_size srv \<and>
     small_request px st srv rq w = Inl (srv', w') \<and> fv w' = small_spec1 (unat (buffer_size srv)) rq (fv w)"
proof -
  note l = fs_lawD [OF law]
  let ?bs = "unat (buffer_size srv)" and ?fl = "[O_APPEND, O_DIRECT, O_WRONLY, O_CREAT]"
  obtain t0 w1 where c0: "px_now px w = (t0, w1)" by (metis prod.exhaust)
  obtain fd w2 where c1: "px_open px (filename rq) ?fl w1 = (fd, w2)" by (metis prod.exhaust)
  obtain t1 w3 where c2: "px_now px w2 = (t1, w3)" by (metis prod.exhaust)
  obtain t2 w4 where c3: "px_now px w3 = (t2, w4)" by (metis prod.exhaust)
  obtain e w5 where c4: "px_memalign px (word_of_int (blk_size srv)) (buffer_size srv) w4 = (e, w5)"
    by (metis prod.exhaust)
  obtain t3 w6 where c5: "px_now px w5 = (t3, w6)" by (metis prod.exhaust)
  obtain t4 w7 where c6: "px_now px w6 = (t4, w7)" by (metis prod.exhaust)
  obtain n w8 where c7: "px_write px fd (chunk ?bs rq) w7 = (n, w8)" by (metis prod.exhaust)
  obtain t5 w9 where c8: "px_now px w8 = (t5, w9)" by (metis prod.exhaust)
  obtain c w10 where c9: "px_close px fd w9 = (c, w10)" by (metis prod.exhaust)
  obtain b w11 where c10: "st_write st empty_file_reply w10 = (b, w11)" by (metis prod.exhaust)
  have fd: "\<not> fd < 0" "fv_fds (fv w) fd = None" and v2: "fv w2 = open_view (filename rq) ?fl fd (fv w)"
    using l(2) [OF c1] l(1) [OF c0] by auto
  have v4: "fv w4 = fv w2" using l(1) [OF c2] l(1) [OF c3] by simp
  have e: "e = 0" and v5: "fv w5 = (fv w2)\<lparr>fv_live := Suc (fv_live (fv w2))\<rparr>"
    using l(3) [OF c4] v4 wf by (auto simp: wf_params_def)
  have v7: "fv w7 = fv w5" using l(1) [OF c5] l(1) [OF c6] by simp
  have len: "length (chunk ?bs rq) \<le> RW_MAX" using wf by (simp add: chunk_def wf_params_def min.coboundedI2)
  then have n: "n = int (length (chunk ?bs rq))" and
    v8: "fv w8 = append_view (filename rq) (chunk ?bs rq) (fv w7)"
    using l(4) [OF c7, of "filename rq"] v7 v5 v2 by (auto simp: open_view_def)
  have n': "word_of_int n = buffer_size srv"
    using rq unfolding n by (simp add: chunk_def enough_data_def)
  have "c = 0" and v10: "fv w10 = (fv w8)\<lparr>fv_fds := (fv_fds (fv w8))(fd := None)\<rparr>"
    using l(5) [OF c9] l(1) [OF c8] by auto
  have v11: "fv w11 = small_spec1 ?bs rq (fv w)"
    using l(8) [OF c10] v10 v8 v7 v5 v2 fd(2)
    by (simp add: small_spec1_def answer_view_def append_view_def open_view_def fun_upd_idem)
  show ?thesis
    using \<open>c = 0\<close> v11 wf fd(1)
    by (intro exI [of _ "srv\<lparr>ft_open := ft_open srv + (t1 - t0),
          ft_allocation := ft_allocation srv + (t3 - t2), ft_rw := ft_rw srv + (t5 - t4)\<rparr>"] exI [of _ w11])
      (simp add: small_request_def c0 c1 c2 c3 c4 e memcpy_chunk [OF rq] c5 c6 c7 n' c8 c9 c10
        wf_params_def Let_def)
qed

lemma small_loop:
  assumes law: "fs_law px st fv" and wf: "wf_params srv"
    and rqs: "\<forall>rq \<in> set (fv_pending (fv w)). enough_data (unat (buffer_size srv)) rq"
  shows "\<exists>srv' w'. loop (small_body px st t0) (srv, w) = Some (Inr ((Status_OK, srv'), w')) \<and>
     fv w' = fold (small_spec1 (unat (buffer_size srv))) (fv_pending (fv w)) ((fv w)\<lparr>fv_pending := []\<rparr>)"
  using assms(2-)
proof (induction "fv_pending (fv w)" arbitrary: srv w)
  case Nil
  note p = Nil.hyps [symmetric]
  obtain r w1 where c: "st_read st w = (r, w1)" by (metis prod.exhaust)
  obtain t w2 where c2: "px_now px w1 = (t, w2)" by (metis prod.exhaust)
  have "small_body px st t0 (srv, w) =
      Inr (Inr ((Status_OK, srv\<lparr>ft_total := ft_total srv + (t - t0)\<rparr>), w2))" and "fv w2 = fv w"
    using fs_lawD(6) [OF law c p] fs_lawD(1) [OF law c2] c c2 by (auto simp: small_body_def)
  then show ?case using p by (simp add: loop_exit)
next
  case (Cons r rs)
  note p = Cons.hyps(2) [symmetric]
  obtain r' w1 where c: "st_read st w = (r', w1)" by (metis prod.exhaust)
  have v1: "r' = Some r" "fv w1 = (fv w)\<lparr>fv_pending := rs\<rparr>" using fs_lawD(7) [OF law c p] by auto
  obtain srv1 w2 where k: "wf_params srv1" "buffer_size srv1 = buffer_size srv"
    and s: "small_request px st srv r w1 = Inl (srv1, w2)"
    and v2: "fv w2 = small_spec1 (unat (buffer_size srv)) r (fv w1)"
    using small_request_step [OF law Cons.prems(1), of r w1] Cons.prems(2) p by auto
  have b: "small_body px st t0 (srv, w) = Inl (srv1, w2)" using c v1 s by (simp add: small_body_def)
  have p2: "fv_pending (fv w2) = rs" and
    n2: "(fv w2)\<lparr>fv_pending := []\<rparr> = small_spec1 (unat (buffer_size srv)) r ((fv w)\<lparr>fv_pending := []\<rparr>)"
    by (simp_all add: v2 v1 small_spec1_def answer_view_def append_view_def)
  obtain srv' w' where "loop (small_body px st t0) (srv1, w2) = Some (Inr ((Status_OK, srv'), w'))"
    "fv w' = fold (small_spec1 (unat (buffer_size srv))) rs ((fv w2)\<lparr>fv_pending := []\<rparr>)"
    using Cons.hyps(1) [of w2 srv1] p2 k Cons.prems(2) p by auto
  then show ?case using loop_next [of "small_body px st t0", OF b] p n2 by simp
qed

lemma small_spec_closed:
  "fv_files (fold (small_spec1 bs) rqs v) name =
     (if name \<in> filename ` set rqs
      then Some ((case fv_files v name of Some c \<Rightarrow> c | None \<Rightarrow> []) @
             concat (map (chunk bs) (filter (\<lambda>rq. filename rq = name) rqs)))
      else fv_files v name)"
  "fv_replies (fold (small_spec1 bs) rqs v) = fv_replies v @ replicate (length rqs) empty_file_reply"
  "fv_live (fold (small_spec1 bs) rqs v) = fv_live v + length rqs"
  "fv_fds (fold (small_spec1 bs) rqs v) = fv_fds v"
  by (induction rqs arbitrary: v)
    (auto simp: small_spec1_def answer_view_def append_view_def image_iff dest: sym)

section \<open>Reading past the end of the data\<close>

text \<open>
  A request whose data, with its terminating zero, is shorter than \<^verbatim>\<open>buffer_size\<close> makes the copy
  read past the string, after the requests before it have been handled.
\<close>

definition too_short :: "nat \<Rightarrow> file_request \<Rightarrow> bool" where
  "too_short bs rq \<longleftrightarrow> length (file_data rq) + 1 < bs"

lemma large_body_overread:
  assumes law: "fs_law px st fv" and wf: "wf_params srv" and "too_short (unat (buffer_size srv)) rq"
  shows "large_body px st fd (srv, rq, w) = Inr (Inl Overread)"
proof -
  obtain t0 w1 where c0: "px_now px w = (t0, w1)" by (metis prod.exhaust)
  obtain e w2 where c1: "px_memalign px (word_of_int (blk_size srv)) (buffer_size srv) w1 = (e, w2)"
    by (metis prod.exhaust)
  have "e = 0" using fs_lawD(3) [OF law c1] wf by (simp add: wf_params_def)
  then show ?thesis
    using assms(3) by (simp add: large_body_def c0 c1 memcpy_from_def c_str_def too_short_def)
qed

lemma large_loop_overread:
  assumes law: "fs_law px st fv" and wf: "wf_params srv" and fd: "fv_fds (fv w) fd = Some name"
    and rqs: "rq # fv_pending (fv w) = xs @ bad # ys"
      "\<forall>rq \<in> set xs. enough_data (unat (buffer_size srv)) rq" "too_short (unat (buffer_size srv)) bad"
  shows "loop (large_body px st fd) (srv, rq, w) = Some (Inl Overread)"
  using assms(2-)
proof (induction xs arbitrary: srv rq w)
  case Nil
  then show ?case
    by (intro loop_exit large_body_overread [OF law]) auto
next
  case (Cons x xs)
  obtain r rs where p: "fv_pending (fv w) = r # rs" "r # rs = xs @ bad # ys"
    using Cons.prems(3) by (cases "xs @ bad # ys") auto
  have x: "enough_data (unat (buffer_size srv)) rq" using Cons.prems(3,4) by simp
  from large_body_step [OF law Cons.prems(1,2) x] p(1) obtain srv1 w1 where
    b: "large_body px st fd (srv, rq, w) = Inl (srv1, r, w1)" and
    k: "wf_params srv1" "buffer_size srv1 = buffer_size srv" and
    v: "fv w1 = (large_spec1 (unat (buffer_size srv)) name rq (fv w))\<lparr>fv_pending := rs\<rparr>"
    by auto
  have "fv_fds (fv w1) fd = Some name" and "r # fv_pending (fv w1) = xs @ bad # ys"
    using Cons.prems(2) p(2) by (simp_all add: v large_spec1_def answer_view_def append_view_def)
  then show ?case
    using Cons.IH [of srv1 w1 r] k Cons.prems(4,5) loop_next [of "large_body px st fd", OF b] by simp
qed

section \<open>Statistics\<close>

definition file_counters :: "file_server \<Rightarrow> int list" where
  "file_counters srv = [ft_allocation srv, ft_rw srv, ft_open srv, ft_total srv]"

interpretation file_stat: stat_service
  "[''time on allocation is '', ''time on writes is '', ''time on open files is '', ''total time on server is '']"
  file_counters "\<lambda>srv. snd (file_GetStat srv)" "\<lambda>srv. snd (file_ResetStat srv)"
  by unfold_locales (simp_all add: file_counters_def file_GetStat_def file_ResetStat_def)

section \<open>The handlers against their specifications\<close>

lemma large_file_effect:
  assumes "fs_law px st fv" and "wf_params srv" and "fv_pending (fv w) = rq # rqs"
    and "\<forall>r \<in> set (rq # rqs). enough_data (unat (buffer_size srv)) r"
  shows "\<exists>srv' w'. AppendOneLargeFile px st srv w = Some (Inr ((Status_OK, srv'), w')) \<and>
     ft_total srv' = ft_total srv \<and>
     fv w' = \<lparr>fv_files = (fv_files (fv w))(filename rq \<mapsto>
                concat (map (chunk (unat (buffer_size srv))) (rq # rqs))),
              fv_fds = fv_fds (fv w), fv_pending = [],
              fv_replies = fv_replies (fv w) @ replicate (length (rq # rqs)) empty_file_reply,
              fv_live = fv_live (fv w) + length (rq # rqs)\<rparr>"
proof -
  let ?fl = "[O_APPEND, O_DIRECT, O_WRONLY, O_CREAT, O_TRUNC]"
  obtain r w1 where c: "st_read st w = (r, w1)" by (metis prod.exhaust)
  obtain fd w2 where o: "px_open px (filename rq) ?fl w1 = (fd, w2)" by (metis prod.exhaust)
  have v1: "r = Some rq" "fv w1 = (fv w)\<lparr>fv_pending := rqs\<rparr>" using fs_lawD(7) [OF assms(1) c assms(3)] by auto
  have v2: "fv w2 = open_view (filename rq) ?fl fd (fv w1)" and nofd: "fv_fds (fv w) fd = None"
    using fs_lawD(2) [OF assms(1) o] v1 by auto
  have "fv_fds (fv w2) fd = Some (filename rq)" "fv_pending (fv w2) = rqs"
    by (simp_all add: v2 v1 open_view_def)
  from large_loop [OF assms(1,2) this(1)] this(2) assms(4) obtain srv' w' where
    "loop (large_body px st fd) (srv, rq, w2) = Some (Inr ((Status_OK, srv'), w'))"
    "ft_total srv' = ft_total srv" and
    v': "fv w' = (large_spec (unat (buffer_size srv)) (filename rq) (rq # rqs) (fv w2))
               \<lparr>fv_pending := [], fv_fds := (fv_fds (fv w2))(fd := None)\<rparr>"
    by metis
  then show ?thesis
    by (intro exI [of _ srv'] exI [of _ w'] conjI fview.equality)
      (simp_all add: AppendOneLargeFile_def c o v1 v2 nofd large_spec_closed open_view_def fun_upd_idem)
qed

lemma small_files_effect:
  assumes "fs_law px st fv" and "wf_params srv"
    and "\<forall>r \<in> set (fv_pending (fv w)). enough_data (unat (buffer_size srv)) r"
  shows "\<exists>srv' w'. AppendManySmallFiles px st srv w = Some (Inr ((Status_OK, srv'), w')) \<and>
     fv_files (fv w') = (\<lambda>name. if name \<in> filename ` set (fv_pending (fv w))
        then Some ((case fv_files (fv w) name of Some c \<Rightarrow> c | None \<Rightarrow> []) @
               concat (map (chunk (unat (buffer_size srv)))
                 (filter (\<lambda>r. filename r = name) (fv_pending (fv w)))))
        else fv_files (fv w) name) \<and>
     fv_fds (fv w') = fv_fds (fv w) \<and>
     fv_replies (fv w') = fv_replies (fv w) @ replicate (length (fv_pending (fv w))) empty_file_reply \<and>
     fv_live (fv w') = fv_live (fv w) + length (fv_pending (fv w))"
proof -
  obtain t w1 where c: "px_now px w = (t, w1)" by (metis prod.exhaust)
  have v1: "fv w1 = fv w" using fs_lawD(1) [OF assms(1) c] .
  from small_loop [OF assms(1,2), of w1 t] assms(3) v1 obtain srv' w' where
    "loop (small_body px st t) (srv, w1) = Some (Inr ((Status_OK, srv'), w'))"
    "fv w' = fold (small_spec1 (unat (buffer_size srv))) (fv_pending (fv w)) ((fv w)\<lparr>fv_pending := []\<rparr>)"
    by metis
  then show ?thesis
    by (intro exI [of _ srv'] exI [of _ w'])
      (simp add: AppendManySmallFiles_def c small_spec_closed fun_eq_iff)
qed

section \<open>A concrete file system\<close>

text \<open>A world for the witnesses: the descriptor table is a list, a clock ticks at every reading.\<close>

record memfs =
  mf_time :: int
  mf_files :: "string \<Rightarrow> byte list option"
  mf_fds :: "string option list"
  mf_pending :: "file_request list"
  mf_replies :: "file_reply list"
  mf_live :: nat

definition memfs_fd :: "memfs \<Rightarrow> int \<Rightarrow> string option" where
  "memfs_fd w fd = (if 0 \<le> fd \<and> fd < int (length (mf_fds w)) then mf_fds w ! nat fd else None)"

definition memfs_view :: "memfs \<Rightarrow> fview" where
  "memfs_view w = \<lparr>fv_files = mf_files w, fv_fds = memfs_fd w, fv_pending = mf_pending w,
     fv_replies = mf_replies w, fv_live = mf_live w\<rparr>"

definition memfs_px :: "memfs posix" where
  "memfs_px = \<lparr>
     px_now = (\<lambda>w. (mf_time w, w\<lparr>mf_time := mf_time w + 1\<rparr>)),
     px_open = (\<lambda>name flags w. (int (length (mf_fds w)), w\<lparr>mf_fds := mf_fds w @ [Some name],
        mf_files := (mf_files w)(name \<mapsto> (if O_TRUNC \<in> set flags then [] else
          (case mf_files w name of Some c \<Rightarrow> c | None \<Rightarrow> [])))\<rparr>)),
     px_memalign = (\<lambda>a n w. (0, w\<lparr>mf_live := Suc (mf_live w)\<rparr>)),
     px_write = (\<lambda>fd buf w. case memfs_fd w fd of None \<Rightarrow> (-1, w)
        | Some name \<Rightarrow> (int (length buf), w\<lparr>mf_files := (mf_files w)(name \<mapsto>
            (case mf_files w name of Some c \<Rightarrow> c | None \<Rightarrow> []) @ buf)\<rparr>)),
     px_close = (\<lambda>fd w. (0, if 0 \<le> fd then w\<lparr>mf_fds := (mf_fds w)[nat fd := None]\<rparr> else w))\<rparr>"

definition memfs_st :: "memfs stream" where
  "memfs_st = \<lparr>
     st_read = (\<lambda>w. case mf_pending w of [] \<Rightarrow> (None, w) | r # rs \<Rightarrow> (Some r, w\<lparr>mf_pending := rs\<rparr>)),
     st_write = (\<lambda>rp w. (True, w\<lparr>mf_replies := mf_replies w @ [rp]\<rparr>))\<rparr>"

lemma memfs_fd_simps:
  "memfs_fd (w\<lparr>mf_fds := mf_fds w @ [Some name]\<rparr>) = (memfs_fd w)(int (length (mf_fds w)) \<mapsto> name)"
  "0 \<le> fd \<Longrightarrow> memfs_fd (w\<lparr>mf_fds := (mf_fds w)[nat fd := None]\<rparr>) = (memfs_fd w)(fd := None)"
  "\<not> 0 \<le> fd \<Longrightarrow> (memfs_fd w)(fd := None) = memfs_fd w"
  by (auto simp: memfs_fd_def fun_eq_iff nth_append nth_list_update)

lemma memfs_fd_frame [simp]:
  "memfs_fd (w\<lparr>mf_time := t\<rparr>) = memfs_fd w" "memfs_fd (w\<lparr>mf_files := f\<rparr>) = memfs_fd w"
  "memfs_fd (w\<lparr>mf_pending := p\<rparr>) = memfs_fd w" "memfs_fd (w\<lparr>mf_replies := r\<rparr>) = memfs_fd w"
  "memfs_fd (w\<lparr>mf_live := l\<rparr>) = memfs_fd w"
  by (simp_all add: memfs_fd_def fun_eq_iff)

lemma memfs_law: "fs_law memfs_px memfs_st memfs_view"
  unfolding fs_law_def
proof (intro conjI)
  show "\<forall>name flags w fd w'. px_open memfs_px name flags w = (fd, w') \<longrightarrow>
      0 \<le> fd \<and> fv_fds (memfs_view w) fd = None \<and> memfs_view w' = open_view name flags fd (memfs_view w)"
    using memfs_fd_simps(1)
    by (auto simp: memfs_px_def memfs_view_def open_view_def) (simp_all add: memfs_fd_def)
  show "\<forall>fd w c w'. px_close memfs_px fd w = (c, w') \<longrightarrow>
      c = 0 \<and> memfs_view w' = (memfs_view w)\<lparr>fv_fds := (fv_fds (memfs_view w))(fd := None)\<rparr>"
    by (auto simp: memfs_px_def memfs_view_def memfs_fd_simps)
qed (auto simp: memfs_px_def memfs_st_def memfs_view_def append_view_def split: option.splits)

definition memfs_of :: "file_request list \<Rightarrow> memfs" where
  "memfs_of rqs = \<lparr>mf_time = 0, mf_files = (\<lambda>_. None), mf_fds = [None, None, None], mf_pending = rqs,
     mf_replies = [], mf_live = 0\<rparr>"

definition sample_params :: "int \<Rightarrow> int \<Rightarrow> parameters" where
  "sample_params bs n = \<lparr>p_blk_size = 4096, p_buffer_size = bs, p_queue_depth = 128,
     p_poll_threshold = 2000, p_n = n, p_nfiles = 2\<rparr>"

definition file_server0 :: file_server where
  "file_server0 = \<lparr>fs_address = ''0.0.0.0'', fs_port = 9876, queue_depth = 0, poll_threshold = 0,
     ft_allocation = 0, ft_rw = 0, ft_total = 0, ft_open = 0, buffer_size = 0, blk_size = 0, fs_N = 0,
     fs_fn = 0, dummy = 0\<rparr>"

lemma sample_wf: "0 \<le> bs \<Longrightarrow> bs \<le> 100 \<Longrightarrow> wf_params (snd (SetParameters (sample_params bs n) file_server0))"
proof -
  assume "0 \<le> bs" and "bs \<le> 100"
  then have "uint (word_of_int bs :: u64) = bs" by (simp add: uint_word_of_int_eq take_bit_int_eq_self)
  then have "unat (word_of_int bs :: u64) \<le> RW_MAX" using \<open>bs \<le> 100\<close> by (simp add: unat_eq_nat_uint)
  moreover have "valid_align 4096" unfolding valid_align_def by (rule bexI [of _ 12]) simp_all
  ultimately show ?thesis by (simp add: wf_params_def SetParameters_def sample_params_def)
qed

section \<open>Properties\<close>

text \<open>C4: \<^verbatim>\<open>AppendOneLargeFile\<close> implements its specification on a file system with room: for any
  non-empty stream of requests with enough data the handler returns OK, the file that the first
  request names, truncated first, holds exactly the first \<^verbatim>\<open>buffer_size\<close> bytes of each request's data
  in order, every other file is unchanged, every request got one reply, every descriptor it opened is
  closed, one buffer per request is left allocated, and the server's total time is not touched.\<close>

theorem large_file_contents:
  assumes "fs_law px st fv" and "wf_params srv" and "fv_pending (fv w) = rq # rqs"
    and "\<forall>r \<in> set (rq # rqs). enough_data (unat (buffer_size srv)) r"
  shows "\<exists>srv' w'. AppendOneLargeFile px st srv w = Some (Inr ((Status_OK, srv'), w')) \<and>
     ft_total srv' = ft_total srv \<and>
     fv w' = \<lparr>fv_files = (fv_files (fv w))(filename rq \<mapsto>
                concat (map (chunk (unat (buffer_size srv))) (rq # rqs))),
              fv_fds = fv_fds (fv w), fv_pending = [],
              fv_replies = fv_replies (fv w) @ replicate (length (rq # rqs)) empty_file_reply,
              fv_live = fv_live (fv w) + length (rq # rqs)\<rparr>"
  using assms by (rule large_file_effect)

theorem large_file_contents_witness:
  "\<exists>srv' w'. AppendOneLargeFile memfs_px memfs_st (snd (SetParameters (sample_params 2 2) file_server0))
       (memfs_of [\<lparr>filename = ''/mnt/large-file'', file_data = [1, 2, 3]\<rparr>,
                  \<lparr>filename = ''other'', file_data = [4, 5]\<rparr>]) = Some (Inr ((Status_OK, srv'), w')) \<and>
     mf_files w' ''/mnt/large-file'' = Some [1, 2, 4, 5] \<and> mf_live w' = 2"
proof -
  let ?srv = "snd (SetParameters (sample_params 2 2) file_server0)"
  let ?rq = "\<lparr>filename = ''/mnt/large-file'', file_data = [1, 2, 3 :: byte]\<rparr>"
    and ?rq' = "\<lparr>filename = ''other'', file_data = [4, 5 :: byte]\<rparr>"
  have wf: "wf_params ?srv" by (rule sample_wf) simp_all
  have bs: "unat (buffer_size ?srv) = 2" by (simp add: SetParameters_def sample_params_def)
  have p: "fv_pending (memfs_view (memfs_of [?rq, ?rq'])) = ?rq # [?rq']"
    by (simp add: memfs_view_def memfs_of_def)
  have "\<forall>r \<in> set (?rq # [?rq']). enough_data (unat (buffer_size ?srv)) r"
    unfolding bs by (simp add: enough_data_def)
  then obtain srv' w' where
    "AppendOneLargeFile memfs_px memfs_st ?srv (memfs_of [?rq, ?rq']) = Some (Inr ((Status_OK, srv'), w'))" and
    v: "memfs_view w' = \<lparr>fv_files = (fv_files (memfs_view (memfs_of [?rq, ?rq'])))(filename ?rq \<mapsto>
                concat (map (chunk (unat (buffer_size ?srv))) (?rq # [?rq']))),
              fv_fds = fv_fds (memfs_view (memfs_of [?rq, ?rq'])), fv_pending = [],
              fv_replies = fv_replies (memfs_view (memfs_of [?rq, ?rq'])) @
                replicate (length (?rq # [?rq'])) empty_file_reply,
              fv_live = fv_live (memfs_view (memfs_of [?rq, ?rq'])) + length (?rq # [?rq'])\<rparr>"
    using large_file_contents [OF memfs_law wf, of "memfs_of [?rq, ?rq']" ?rq "[?rq']"] p by blast
  then show ?thesis unfolding bs by (auto simp: memfs_view_def memfs_of_def chunk_def)
qed

text \<open>a request whose data is shorter than \<^verbatim>\<open>buffer_size\<close> by more than the terminating zero makes
  \<^verbatim>\<open>AppendOneLargeFile\<close> read past the end of the string, whatever valid requests precede it.\<close>

theorem large_file_overread:
  assumes "fs_law px st fv" and "wf_params srv" and "fv_pending (fv w) = xs @ bad # ys"
    and "\<forall>r \<in> set xs. enough_data (unat (buffer_size srv)) r" and "too_short (unat (buffer_size srv)) bad"
  shows "AppendOneLargeFile px st srv w = Some (Inl Overread)"
proof -
  let ?fl = "[O_APPEND, O_DIRECT, O_WRONLY, O_CREAT, O_TRUNC]"
  obtain rq rqs where p: "xs @ bad # ys = rq # rqs" by (cases "xs @ bad # ys") auto
  obtain r w1 where c: "st_read st w = (r, w1)" by (metis prod.exhaust)
  obtain fd w2 where o: "px_open px (filename rq) ?fl w1 = (fd, w2)" by (metis prod.exhaust)
  have v1: "r = Some rq" "fv w1 = (fv w)\<lparr>fv_pending := rqs\<rparr>"
    using fs_lawD(7) [OF assms(1) c assms(3) [unfolded p]] by auto
  have "fv w2 = open_view (filename rq) ?fl fd (fv w1)" using fs_lawD(2) [OF assms(1) o] by auto
  then have "fv_fds (fv w2) fd = Some (filename rq)" "rq # fv_pending (fv w2) = xs @ bad # ys"
    using p v1 by (simp_all add: open_view_def)
  from large_loop_overread [OF assms(1,2) this assms(4,5)] show ?thesis
    by (simp add: AppendOneLargeFile_def c o v1)
qed

theorem large_file_overread_witness:
  "AppendOneLargeFile memfs_px memfs_st (snd (SetParameters (sample_params 4 2) file_server0))
     (memfs_of [\<lparr>filename = ''f'', file_data = [1, 2, 3, 4]\<rparr>, \<lparr>filename = ''f'', file_data = [5]\<rparr>])
   = Some (Inl Overread)"
proof (rule large_file_overread [where xs = "[\<lparr>filename = ''f'', file_data = [1, 2, 3, 4]\<rparr>]"
      and bad = "\<lparr>filename = ''f'', file_data = [5]\<rparr>" and ys = "[]", OF memfs_law])
  show "wf_params (snd (SetParameters (sample_params 4 2) file_server0))" by (rule sample_wf) simp_all
qed (simp_all add: SetParameters_def sample_params_def enough_data_def too_short_def memfs_view_def memfs_of_def)

text \<open>C6: \<^verbatim>\<open>AppendManySmallFiles\<close> implements its specification on a file system with room: it returns
  OK, every file named by a request has grown by exactly the first \<^verbatim>\<open>buffer_size\<close> bytes of each
  request for it, in order, no other file changed, there is one reply per request and no descriptor
  is left open (but one buffer per request is left allocated).\<close>

theorem small_files_contents:
  assumes "fs_law px st fv" and "wf_params srv"
    and "\<forall>r \<in> set (fv_pending (fv w)). enough_data (unat (buffer_size srv)) r"
  shows "\<exists>srv' w'. AppendManySmallFiles px st srv w = Some (Inr ((Status_OK, srv'), w')) \<and>
     fv_files (fv w') = (\<lambda>name. if name \<in> filename ` set (fv_pending (fv w))
        then Some ((case fv_files (fv w) name of Some c \<Rightarrow> c | None \<Rightarrow> []) @
               concat (map (chunk (unat (buffer_size srv)))
                 (filter (\<lambda>r. filename r = name) (fv_pending (fv w)))))
        else fv_files (fv w) name) \<and>
     fv_fds (fv w') = fv_fds (fv w) \<and>
     fv_replies (fv w') = fv_replies (fv w) @ replicate (length (fv_pending (fv w))) empty_file_reply \<and>
     fv_live (fv w') = fv_live (fv w) + length (fv_pending (fv w))"
  using assms by (rule small_files_effect)

theorem small_files_contents_witness:
  "\<exists>srv' w'. AppendManySmallFiles memfs_px memfs_st (snd (SetParameters (sample_params 2 2) file_server0))
      (memfs_of [\<lparr>filename = ''a'', file_data = [1, 2]\<rparr>, \<lparr>filename = ''b'', file_data = [3, 4, 5]\<rparr>,
                 \<lparr>filename = ''a'', file_data = [6, 7]\<rparr>]) = Some (Inr ((Status_OK, srv'), w')) \<and>
    mf_files w' ''a'' = Some [1, 2, 6, 7] \<and> mf_files w' ''b'' = Some [3, 4]"
proof -
  let ?srv = "snd (SetParameters (sample_params 2 2) file_server0)"
  let ?w = "memfs_of [\<lparr>filename = ''a'', file_data = [1, 2]\<rparr>, \<lparr>filename = ''b'', file_data = [3, 4, 5]\<rparr>,
                 \<lparr>filename = ''a'', file_data = [6, 7]\<rparr>]"
  have wf: "wf_params ?srv" by (rule sample_wf) simp_all
  have bs: "unat (buffer_size ?srv) = 2" by (simp add: SetParameters_def sample_params_def)
  have "\<forall>r \<in> set (fv_pending (memfs_view ?w)). enough_data (unat (buffer_size ?srv)) r"
    unfolding bs by (simp add: enough_data_def memfs_view_def memfs_of_def)
  from small_files_contents [OF memfs_law wf this] obtain srv' w' where
    "AppendManySmallFiles memfs_px memfs_st ?srv ?w = Some (Inr ((Status_OK, srv'), w'))" and
    "fv_files (memfs_view w') = (\<lambda>name. if name \<in> filename ` set (fv_pending (memfs_view ?w))
        then Some ((case fv_files (memfs_view ?w) name of Some c \<Rightarrow> c | None \<Rightarrow> []) @
               concat (map (chunk (unat (buffer_size ?srv)))
                 (filter (\<lambda>r. filename r = name) (fv_pending (memfs_view ?w)))))
        else fv_files (memfs_view ?w) name)" by blast
  then show ?thesis unfolding bs by (auto simp: memfs_view_def memfs_of_def chunk_def)
qed

text \<open>when a write of \<^verbatim>\<open>AppendManySmallFiles\<close> is short, the handler answers with an error and leaves
  the file it had opened for that request open.\<close>

theorem small_short_write_leaks_fd:
  assumes "px_now px w = (t0, w1)" and "px_open px (filename rq) [O_APPEND, O_DIRECT, O_WRONLY, O_CREAT] w1 = (fd, w2)"
    and "0 \<le> fd" and "px_now px w2 = (t1, w3)" and "px_now px w3 = (t2, w4)"
    and "px_memalign px (word_of_int (blk_size srv)) (buffer_size srv) w4 = (0, w5)"
    and "enough_data (unat (buffer_size srv)) rq" and "px_now px w5 = (t3, w6)" and "px_now px w6 = (t4, w7)"
    and "px_write px fd (chunk (unat (buffer_size srv)) rq) w7 = (n, w8)"
    and "n < int (unat (buffer_size srv))" and "-1 \<le> n" and "unat (buffer_size srv) \<le> RW_MAX"
  shows "\<exists>srv'. small_request px st srv rq w =
     Inr (Inr ((Status_UNKNOWN ''write data failed'', srv'), w8)) \<and> ft_rw srv' = ft_rw srv"
proof -
  have "(word_of_int n :: u64) \<noteq> buffer_size srv"
  proof
    assume eq: "(word_of_int n :: u64) = buffer_size srv"
    then have "uint (word_of_int n :: u64) = int (unat (buffer_size srv))" by simp
    moreover have "int (unat (buffer_size srv)) \<le> int RW_MAX" using assms(13) by (simp only: of_nat_le_iff)
    ultimately show False
      using assms(11,12) uint64_nonneg [of n] uint64_neg [of n] by (cases "0 \<le> n") auto
  qed
  then show ?thesis
    using assms by (simp add: small_request_def memcpy_chunk Let_def)
qed

theorem small_short_write_leaks_fd_witness:
  "\<exists>srv' w'. small_request (memfs_px\<lparr>px_write := \<lambda>fd buf w. (1, w)\<rparr>) memfs_st
       (snd (SetParameters (sample_params 2 2) file_server0)) \<lparr>filename = ''a'', file_data = [1, 2]\<rparr> (memfs_of [])
     = Inr (Inr ((Status_UNKNOWN ''write data failed'', srv'), w')) \<and> ft_rw srv' = 0 \<and>
     memfs_fd w' 3 = Some ''a''"
proof -
  let ?px = "memfs_px\<lparr>px_write := \<lambda>fd buf w. (1, w)\<rparr>"
  let ?w = "(memfs_of [])\<lparr>mf_fds := [None, None, None, Some ''a''], mf_files := [''a'' \<mapsto> []]\<rparr>"
  let ?srv = "snd (SetParameters (sample_params 2 2) file_server0)"
  have "\<exists>srv'. small_request ?px memfs_st ?srv \<lparr>filename = ''a'', file_data = [1, 2]\<rparr> (memfs_of []) =
      Inr (Inr ((Status_UNKNOWN ''write data failed'', srv'), ?w\<lparr>mf_time := 5, mf_live := 1\<rparr>)) \<and>
      ft_rw srv' = ft_rw ?srv"
    by (rule small_short_write_leaks_fd [where ?t0.0 = 0 and ?w1.0 = "(memfs_of [])\<lparr>mf_time := 1\<rparr>"
          and fd = 3 and ?w2.0 = "?w\<lparr>mf_time := 1\<rparr>" and ?t1.0 = 1 and ?w3.0 = "?w\<lparr>mf_time := 2\<rparr>"
          and ?t2.0 = 2 and ?w4.0 = "?w\<lparr>mf_time := 3\<rparr>" and ?w5.0 = "?w\<lparr>mf_time := 3, mf_live := 1\<rparr>"
          and ?t3.0 = 3 and ?w6.0 = "?w\<lparr>mf_time := 4, mf_live := 1\<rparr>" and ?t4.0 = 4
          and ?w7.0 = "?w\<lparr>mf_time := 5, mf_live := 1\<rparr>" and n = 1])
      (simp_all add: memfs_px_def memfs_of_def SetParameters_def sample_params_def enough_data_def)
  moreover have "ft_rw ?srv = 0" by (simp add: SetParameters_def file_server0_def)
  moreover have "memfs_fd (?w\<lparr>mf_time := 5, mf_live := 1\<rparr>) 3 = Some ''a''" by (simp add: memfs_fd_def)
  ultimately show ?thesis by metis
qed

text \<open>a negative 32-bit \<^verbatim>\<open>buffer_size\<close> becomes a size of almost \<open>2 ^ 64\<close> bytes, for which no data
  that fits in memory is long enough: every request then overreads, unless the allocation fails.\<close>

theorem set_parameters_negative:
  assumes "is_int (p_buffer_size ps)" and "p_buffer_size ps < 0"
    and "srv' = snd (SetParameters ps srv)" and "int (length (file_data rq)) < 2 ^ 63"
    and "px_now px w = (t0, w1)" and "px_memalign px (word_of_int (blk_size srv')) (buffer_size srv') w1 = (e, w2)"
  shows "uint (buffer_size srv') = 2 ^ 64 + p_buffer_size ps \<and>
     large_body px st fd (srv', rq, w) =
       (if e \<noteq> 0 then Inr (Inr ((Status_UNKNOWN ''posix_memalign failed'', srv'), w2))
        else Inr (Inl Overread))"
proof -
  have u: "uint (buffer_size srv') = 2 ^ 64 + p_buffer_size ps"
    using assms(1,2) uint64_neg [of "p_buffer_size ps"] unfolding assms(3) SetParameters_def
    by (simp add: is_int_def)
  then have "int (Suc (length (file_data rq))) < int (unat (buffer_size srv'))"
    using assms(1,4) by (simp add: is_int_def)
  then have "\<not> unat (buffer_size srv') \<le> Suc (length (file_data rq))" by linarith
  with u show ?thesis
    using assms(5,6) by (simp add: large_body_def memcpy_from_def c_str_def)
qed

theorem set_parameters_negative_witness:
  "uint (buffer_size (snd (SetParameters (sample_params (-1) 1) file_server0))) = 2 ^ 64 + (-1) \<and>
   large_body memfs_px memfs_st 3 (snd (SetParameters (sample_params (-1) 1) file_server0), empty_file_request,
     memfs_of []) = Inr (Inl Overread)"
  using set_parameters_negative [where ps = "sample_params (-1) 1" and srv = file_server0 and px = memfs_px
      and w = "memfs_of []" and rq = empty_file_request, OF _ _ refl]
  by (simp add: memfs_px_def memfs_of_def sample_params_def is_int_def empty_file_request_def)

text \<open>the statistics of a file server after \<^verbatim>\<open>ResetStat\<close> report zero for each of the four
  counters, whatever the server did before.\<close>

theorem file_stat_reset:
  "snd (file_GetStat (snd (file_ResetStat srv))) = render_stat
     [(''time on allocation is '', 0), (''time on writes is '', 0), (''time on open files is '', 0),
      (''total time on server is '', 0)]"
  using file_stat.report_after_reset [of srv] by simp

end
