(* ===== verification/Uring_Service.thy ===== *)
theory Uring_Service
  imports File_Service "HOL-Library.Multiset"
begin

text \<open>
  The handlers of \<^verbatim>\<open>GRPCFileServerSync\<close> that use io_uring: \<^verbatim>\<open>AppendOneLargeFileAsync\<close>,
  \<^verbatim>\<open>AppendOneLargeFileAsyncExpr\<close> and \<^verbatim>\<open>AppendManySmallFilesAsync\<close> of
  \<^verbatim>\<open>src/src/file_target.cc\<close>. Three agents work on one ring: the handler submits one or two entries
  per request, the kernel completes submitted entries in any order (a linked entry after its
  predecessor), the thread \<^verbatim>\<open>cq_thread\<close> reaps a fixed number of completions and frees their buffers.
  Their interleavings are the relation \<open>uring_step\<close>; what all three handlers have in common is
  proved once in the locale \<open>uring_handler\<close>.
\<close>

section \<open>The shared ring\<close>

text \<open>An entry carries the number of its request, which also names its buffer.\<close>

datatype uop = Uwrite int nat "byte list" | Uclose int nat

fun bufs_of :: "uop \<Rightarrow> nat list" where
  "bufs_of (Uwrite fd i d) = [i]"
| "bufs_of (Uclose fd i) = []"

datatype main_pc =
    Handling file_request     \<comment> \<open>in the loop, with the request it read\<close>
  | Joining                   \<comment> \<open>in \<^verbatim>\<open>cq_thread.join()\<close>\<close>
  | Spinning                  \<comment> \<open>in \<^verbatim>\<open>while (!sqe)\<close> with a full submission queue\<close>
  | Returned grpc_status
  | Crashed fault

record uring_state =
  u_main :: main_pc
  u_pending :: "file_request list"     \<comment> \<open>requests not yet read from the stream\<close>
  u_n :: nat                           \<comment> \<open>requests submitted\<close>
  u_ring :: "uop list"                 \<comment> \<open>submitted, not completed\<close>
  u_cq :: "uop list"                   \<comment> \<open>completed, not reaped\<close>
  u_reaped :: nat                      \<comment> \<open>the counter \<^verbatim>\<open>i\<close> of \<^verbatim>\<open>cq_thread\<close>\<close>
  u_quit :: bool                       \<comment> \<open>\<^verbatim>\<open>cq_thread\<close> returned on a failed wait\<close>
  u_live :: "nat set"                  \<comment> \<open>buffers allocated and not freed\<close>
  u_done :: "(uop \<times> int) list"         \<comment> \<open>completions in their order, with \<^verbatim>\<open>res\<close>\<close>

definition running :: "uring_state \<Rightarrow> bool" where
  "running s \<longleftrightarrow> (case u_main s of Returned _ \<Rightarrow> False | Crashed _ \<Rightarrow> False | _ \<Rightarrow> True)"

text \<open>\<^verbatim>\<open>while (stream->Read(&request))\<close>: the next request, or the end of the loop.\<close>

definition read_next :: "uring_state \<Rightarrow> uring_state" where
  "read_next s = (case u_pending s of
     [] \<Rightarrow> s\<lparr>u_main := Joining\<rparr>
   | rq # rqs \<Rightarrow> s\<lparr>u_main := Handling rq, u_pending := rqs\<rparr>)"

definition crash :: "fault \<Rightarrow> uring_state \<Rightarrow> uring_state" where
  "crash f s = s\<lparr>u_main := Crashed f\<rparr>"

definition gives_up :: "uring_state \<Rightarrow> uring_state \<Rightarrow> bool" where
  "gives_up s s' \<longleftrightarrow> (\<exists>f. s' = crash f s)"

definition queue_ops :: "uop list \<Rightarrow> uring_state \<Rightarrow> uring_state" where
  "queue_ops ops s = s\<lparr>u_ring := u_ring s @ ops, u_n := Suc (u_n s), u_live := insert (u_n s) (u_live s)\<rparr>"

section \<open>Submitting one request\<close>

text \<open>
  Once \<^verbatim>\<open>cq_thread\<close> runs, an early \<^verbatim>\<open>return\<close> destroys a joinable \<^verbatim>\<open>std::thread\<close>, which ends the
  process. \<open>sqe_ok\<close> and \<open>alloc_ok\<close> tell whether \<^verbatim>\<open>io_uring_get_sqe\<close> and \<^verbatim>\<open>posix_memalign\<close> succeed.
\<close>

definition large_submit ::
  "nat \<Rightarrow> int \<Rightarrow> bool \<Rightarrow> bool \<Rightarrow> file_request \<Rightarrow> uring_state \<Rightarrow> uring_state" where
  "large_submit bs fd sqe_ok alloc_ok rq s =
     (if \<not> sqe_ok then crash Terminate s
      else if \<not> alloc_ok then crash Terminate s
      else case memcpy_from (c_str (file_data rq)) bs of
        Inl f \<Rightarrow> crash f s
      | Inr buffer \<Rightarrow> read_next (queue_ops [Uwrite fd (u_n s) buffer] s))"

text \<open>The experiment writes to its files in turn: \<^verbatim>\<open>fds[n++ % fn]\<close>, all of them \<^verbatim>\<open>int\<close>s.\<close>

definition expr_fd :: "int list \<Rightarrow> nat \<Rightarrow> int outcome" where
  "expr_fd fds n =
     (if int n \<ge> INT_MAX then Inl Signed_overflow
      else bindF (c_rem (int n) (int (length fds))) (\<lambda>k. Inr (fds ! nat k)))"

definition expr_submit ::
  "nat \<Rightarrow> int list \<Rightarrow> bool \<Rightarrow> bool \<Rightarrow> file_request \<Rightarrow> uring_state \<Rightarrow> uring_state" where
  "expr_submit bs fds sqe_ok alloc_ok rq s =
     (if \<not> sqe_ok then crash Terminate s
      else if \<not> alloc_ok then crash Terminate s
      else case memcpy_from (c_str (file_data rq)) bs of
        Inl f \<Rightarrow> crash f s
      | Inr buffer \<Rightarrow>
          (case expr_fd fds (u_n s) of
             Inl f \<Rightarrow> crash f s
           | Inr fd \<Rightarrow> read_next (queue_ops [Uwrite fd (u_n s) buffer] s)))"

text \<open>
  The small-file handler opens the request's file (\<open>fd\<close> is what \<^verbatim>\<open>open\<close> returns) and needs two
  entries, of which the second is taken before the first is submitted: a ring of one entry never
  has room for it.
\<close>

definition small_submit ::
  "nat \<Rightarrow> nat \<Rightarrow> int \<Rightarrow> bool \<Rightarrow> file_request \<Rightarrow> uring_state \<Rightarrow> uring_state" where
  "small_submit bs entries fd alloc_ok rq s =
     (if fd < 0 then crash Terminate s
      else if \<not> alloc_ok then crash Terminate s
      else case memcpy_from (c_str (file_data rq)) bs of
        Inl f \<Rightarrow> crash f s
      | Inr buffer \<Rightarrow>
          if entries < 2 then s\<lparr>u_main := Spinning\<rparr>
          else read_next (queue_ops [Uwrite fd (u_n s) buffer, Uclose fd (u_n s)] s))"

section \<open>The start of the handlers\<close>

definition uring_idle :: "file_request list \<Rightarrow> uring_state" where
  "uring_idle rqs = \<lparr>u_main = Joining, u_pending = rqs, u_n = 0, u_ring = [], u_cq = [], u_reaped = 0,
     u_quit = False, u_live = {}, u_done = []\<rparr>"

definition init_failed :: grpc_status where
  "init_failed = Status_UNKNOWN ''io_uring_queue_init_params failed''"

text \<open>The first \<^verbatim>\<open>Read\<close> of the large and of the small handler is not checked.\<close>

definition first_read :: "uring_state \<Rightarrow> uring_state" where
  "first_read s = (case u_pending s of
     [] \<Rightarrow> s\<lparr>u_main := Handling empty_file_request\<rparr>
   | rq # rqs \<Rightarrow> s\<lparr>u_main := Handling rq, u_pending := rqs\<rparr>)"

definition large_start :: "int \<Rightarrow> int \<Rightarrow> file_request list \<Rightarrow> uring_state" where
  "large_start ret fd rqs =
     (if ret \<noteq> 0 then (uring_idle rqs)\<lparr>u_main := Returned init_failed\<rparr>
      else if fd < 0 then crash Terminate (first_read (uring_idle rqs))
      else first_read (uring_idle rqs))"

definition small_start :: "int \<Rightarrow> file_request list \<Rightarrow> uring_state" where
  "small_start ret rqs =
     (if ret \<noteq> 0 then (uring_idle rqs)\<lparr>u_main := Returned init_failed\<rparr>
      else first_read (uring_idle rqs))"

text \<open>
  The experiment opens \<^verbatim>\<open>fn\<close> files whose names carry a number of the call (\<^verbatim>\<open>nonce\<close>) and of the
  file; \<open>fds\<close> are the results of the opens, the first negative one ends the process.
\<close>

definition expr_name :: "int \<Rightarrow> int \<Rightarrow> string" where
  "expr_name nonce i = ''/mnt/large-file-'' @ to_string nonce @ ''-'' @ to_string i"

definition expr_names :: "int \<Rightarrow> int \<Rightarrow> string list" where
  "expr_names nonce fn = map (\<lambda>i. expr_name nonce (int i)) [0..<nat fn]"

text \<open>\<^verbatim>\<open>int nonce = dummy++\<close> on an \<^verbatim>\<open>atomic_int\<close>, which wraps.\<close>

definition take_nonce :: "file_server \<Rightarrow> int \<times> file_server" where
  "take_nonce srv = (dummy srv, srv\<lparr>dummy := to_int32 (dummy srv + 1)\<rparr>)"

fun nonces :: "nat \<Rightarrow> file_server \<Rightarrow> int list" where
  "nonces 0 srv = []"
| "nonces (Suc n) srv = (case take_nonce srv of (nonce, srv') \<Rightarrow> nonce # nonces n srv')"

definition expr_start :: "int \<Rightarrow> int \<Rightarrow> int list \<Rightarrow> file_request list \<Rightarrow> uring_state" where
  "expr_start ret fn fds rqs =
     (if ret \<noteq> 0 then (uring_idle rqs)\<lparr>u_main := Returned init_failed\<rparr>
      else if fn < 0 then crash Bad_alloc (uring_idle rqs)
      else if \<exists>fd \<in> set fds. fd < 0 then crash Terminate (uring_idle rqs)
      else read_next (uring_idle rqs))"

section \<open>Interleavings\<close>

text \<open>A linked close is not started before the write it is linked to has completed.\<close>

fun startable :: "uop list \<Rightarrow> uop \<Rightarrow> bool" where
  "startable ring (Uwrite fd i d) = True"
| "startable ring (Uclose fd i) = (\<forall>op \<in> set ring. i \<notin> set (bufs_of op))"

fun res_ok :: "uop \<Rightarrow> int \<Rightarrow> bool" where
  "res_ok (Uwrite fd i d) r = (r \<le> int (length d))"
| "res_ok (Uclose fd i) r = (r \<le> 0)"

text \<open>
  \<open>submit\<close> relates a state in which the handler holds a request to the state after submitting it;
  \<open>expected\<close> is the number of completions that \<^verbatim>\<open>cq_thread\<close> waits for.
\<close>

inductive uring_step ::
  "(file_request \<Rightarrow> uring_state \<Rightarrow> uring_state \<Rightarrow> bool) \<Rightarrow> int \<Rightarrow> uring_state \<Rightarrow> uring_state \<Rightarrow> bool"
  for submit expected where
  submit: "u_main s = Handling rq \<Longrightarrow> submit rq s s' \<Longrightarrow> uring_step submit expected s s'"
| complete: "running s \<Longrightarrow> u_ring s = xs @ op # ys \<Longrightarrow> startable (xs @ ys) op \<Longrightarrow> res_ok op r \<Longrightarrow>
     uring_step submit expected s
       (s\<lparr>u_ring := xs @ ys, u_cq := u_cq s @ [op], u_done := u_done s @ [(op, r)]\<rparr>)"
| reap: "running s \<Longrightarrow> \<not> u_quit s \<Longrightarrow> int (u_reaped s) < expected \<Longrightarrow> u_cq s = op # rest \<Longrightarrow>
     uring_step submit expected s
       (s\<lparr>u_cq := rest, u_reaped := Suc (u_reaped s), u_live := u_live s - set (bufs_of op)\<rparr>)"
| wait_fails: "running s \<Longrightarrow> \<not> u_quit s \<Longrightarrow> int (u_reaped s) < expected \<Longrightarrow>
     uring_step submit expected s (s\<lparr>u_quit := True\<rparr>)"
| join: "u_main s = Joining \<Longrightarrow> u_quit s \<or> expected \<le> int (u_reaped s) \<Longrightarrow>
     uring_step submit expected s (s\<lparr>u_main := Returned Status_OK\<rparr>)"

inductive uring_reachable ::
  "(file_request \<Rightarrow> uring_state \<Rightarrow> uring_state \<Rightarrow> bool) \<Rightarrow> int \<Rightarrow> uring_state \<Rightarrow> uring_state \<Rightarrow> bool"
  for submit expected s0 where
  start: "uring_reachable submit expected s0 s0"
| step: "uring_reachable submit expected s0 s \<Longrightarrow> uring_step submit expected s s' \<Longrightarrow>
     uring_reachable submit expected s0 s'"

text \<open>
  The three handlers: the environment chooses the results of the calls of each submission, from the
  set \<open>env\<close> of those that can occur.
\<close>

definition large_sub ::
  "(bool \<times> bool) set \<Rightarrow> nat \<Rightarrow> int \<Rightarrow> file_request \<Rightarrow> uring_state \<Rightarrow> uring_state \<Rightarrow> bool" where
  "large_sub env bs fd rq s s' \<longleftrightarrow> (\<exists>(sqe_ok, alloc_ok) \<in> env. s' = large_submit bs fd sqe_ok alloc_ok rq s)"

definition expr_sub ::
  "(bool \<times> bool) set \<Rightarrow> nat \<Rightarrow> int list \<Rightarrow> file_request \<Rightarrow> uring_state \<Rightarrow> uring_state \<Rightarrow> bool" where
  "expr_sub env bs fds rq s s' \<longleftrightarrow> (\<exists>(sqe_ok, alloc_ok) \<in> env. s' = expr_submit bs fds sqe_ok alloc_ok rq s)"

text \<open>\<open>fd_of\<close> gives what \<^verbatim>\<open>open\<close> returns for each request.\<close>

definition small_sub ::
  "bool set \<Rightarrow> nat \<Rightarrow> nat \<Rightarrow> (nat \<Rightarrow> int) \<Rightarrow> file_request \<Rightarrow> uring_state \<Rightarrow> uring_state \<Rightarrow> bool" where
  "small_sub env bs entries fd_of rq s s' \<longleftrightarrow>
     (\<exists>alloc_ok \<in> env. s' = small_submit bs entries (fd_of (u_n s)) alloc_ok rq s)"

section \<open>The invariant of the ring\<close>

definition all_ops :: "(nat \<Rightarrow> file_request \<Rightarrow> uop list) \<Rightarrow> file_request list \<Rightarrow> uop list" where
  "all_ops ops rqs = concat (map (\<lambda>(i, rq). ops i rq) (enumerate 0 rqs))"

lemma all_ops_snoc: "all_ops ops (rqs @ [rq]) = all_ops ops rqs @ ops (length rqs) rq"
  by (simp add: all_ops_def enumerate_append_eq)

lemma gives_up_crash [simp]: "gives_up s (crash f s)"
  by (auto simp: gives_up_def)

lemma all_ops_Nil [simp]: "all_ops ops [] = []"
  by (simp add: all_ops_def)

primrec bufs :: "uop list \<Rightarrow> nat list" where
  "bufs [] = []"
| "bufs (op # ops) = bufs_of op @ bufs ops"

lemma bufs_append [simp]: "bufs (xs @ ys) = bufs xs @ bufs ys"
  by (induction xs) simp_all

definition accounted :: "(nat \<Rightarrow> file_request \<Rightarrow> uop list) \<Rightarrow> file_request list \<Rightarrow> uring_state \<Rightarrow> bool" where
  "accounted ops subm s \<longleftrightarrow>
     u_n s = length subm \<and>
     mset (u_ring s) + mset (map fst (u_done s)) = mset (all_ops ops subm) \<and>
     (\<exists>reaped. map fst (u_done s) = reaped @ u_cq s \<and> length reaped = u_reaped s) \<and>
     u_live s = set (bufs (u_ring s)) \<union> set (bufs (u_cq s))"

definition uring_inv ::
  "(nat \<Rightarrow> file_request \<Rightarrow> uop list) \<Rightarrow> int \<Rightarrow> file_request list \<Rightarrow> uring_state \<Rightarrow> bool" where
  "uring_inv ops expected rqs s \<longleftrightarrow>
     (\<exists>subm rest. rqs = subm @ rest \<and> accounted ops subm s \<and>
        (\<forall>rq. u_main s = Handling rq \<longrightarrow> rest = rq # u_pending s) \<and>
        (u_main s = Joining \<or> u_main s = Returned Status_OK \<longrightarrow> rest = [])) \<and>
     int (u_reaped s) \<le> max 0 expected \<and>
     (u_main s = Returned Status_OK \<longrightarrow> u_quit s \<or> expected \<le> int (u_reaped s))"

lemma uring_inv_idle: "u_main s = Handling rq \<Longrightarrow> u_n s = 0 \<Longrightarrow> u_ring s = [] \<Longrightarrow> u_cq s = [] \<Longrightarrow>
    u_reaped s = 0 \<Longrightarrow> u_live s = {} \<Longrightarrow> u_done s = [] \<Longrightarrow> uring_inv ops expected (rq # u_pending s) s"
  unfolding uring_inv_def accounted_def
  by (intro conjI exI [of _ "[]"] exI [of _ "rq # u_pending s"]) auto

text \<open>
  What the three handlers share: a submission queues the entries \<open>ops\<close> of its request or gives up;
  a request has \<open>width\<close> entries and exactly one buffer, its own.
\<close>

locale uring_handler =
  fixes submit :: "file_request \<Rightarrow> uring_state \<Rightarrow> uring_state \<Rightarrow> bool"
    and ops :: "nat \<Rightarrow> file_request \<Rightarrow> uop list" and width :: nat
  assumes submit_effect: "submit rq s s' \<Longrightarrow>
      gives_up s s' \<or> s' = s\<lparr>u_main := Spinning\<rparr> \<or> s' = read_next (queue_ops (ops (u_n s) rq) s)"
    and ops_width: "length (ops i rq) = width"
    and ops_bufs: "bufs (ops i rq) = [i]"
begin

lemma all_ops_length: "length (all_ops ops rqs) = width * length rqs"
  by (induction rqs rule: rev_induct) (simp_all add: all_ops_snoc ops_width)

lemma all_ops_bufs: "bufs (all_ops ops rqs) = [0..<length rqs]"
  by (induction rqs rule: rev_induct) (simp_all add: all_ops_snoc ops_bufs)

lemma accounted_length:
  assumes "accounted ops subm s"
  shows "length (u_ring s) + u_reaped s + length (u_cq s) = width * length subm"
proof -
  have "size (mset (u_ring s) + mset (map fst (u_done s))) = width * length subm"
    using assms all_ops_length by (simp add: accounted_def)
  moreover have "length (map fst (u_done s)) = u_reaped s + length (u_cq s)"
    using assms unfolding accounted_def by (metis length_append)
  ultimately show ?thesis by simp
qed

lemma accounted_distinct:
  assumes "accounted ops subm s"
  shows "distinct (bufs (u_ring s) @ bufs (u_cq s))"
proof -
  obtain reaped where dn: "map fst (u_done s) = reaped @ u_cq s"
    using assms by (auto simp: accounted_def)
  have m: "mset (u_ring s @ reaped @ u_cq s) = mset (all_ops ops subm)"
    using assms dn by (simp add: accounted_def)
  have "mset (bufs xs) = \<Sum>\<^sub># (image_mset (\<lambda>op. mset (bufs_of op)) (mset xs))" for xs
    by (induction xs) simp_all
  then have "mset (bufs (u_ring s @ reaped @ u_cq s)) = mset (bufs (all_ops ops subm))"
    using m by metis
  then have "distinct (bufs (u_ring s @ reaped @ u_cq s))"
    using mset_eq_imp_distinct_iff all_ops_bufs by (metis distinct_upt)
  then show ?thesis by auto
qed

lemma submit_inv:
  assumes "submit rq s s'" and main: "u_main s = Handling rq" and inv: "uring_inv ops expected rqs s"
  shows "uring_inv ops expected rqs s'"
proof -
  obtain subm rest where r: "rqs = subm @ rest" "rest = rq # u_pending s" and a: "accounted ops subm s"
    using inv main by (auto simp: uring_inv_def)
  have le: "int (u_reaped s) \<le> max 0 expected" using inv by (simp add: uring_inv_def)
  consider f where "s' = crash f s" | "s' = s\<lparr>u_main := Spinning\<rparr>"
    | "s' = read_next (queue_ops (ops (u_n s) rq) s)"
    using submit_effect [OF assms(1)] unfolding gives_up_def by blast
  then show ?thesis
  proof cases
    case 1
    then show ?thesis using r(1) a le by (auto simp: uring_inv_def accounted_def crash_def)
  next
    case 2
    then show ?thesis using r(1) a le by (auto simp: uring_inv_def accounted_def)
  next
    case 3
    have "accounted ops (subm @ [rq]) s'"
      using a unfolding 3 accounted_def
      by (auto simp: read_next_def queue_ops_def all_ops_snoc ops_bufs split: list.splits)
    moreover have "rqs = (subm @ [rq]) @ u_pending s" using r by simp
    ultimately show ?thesis
      using le unfolding 3 uring_inv_def
      by (intro conjI exI [of _ "subm @ [rq]"] exI [of _ "u_pending s"])
        (auto simp: read_next_def queue_ops_def split: list.splits)
  qed
qed

lemma complete_accounted:
  assumes a: "accounted ops subm s" and ring: "u_ring s = xs @ op # ys"
  shows "accounted ops subm (s\<lparr>u_ring := xs @ ys, u_cq := u_cq s @ [op], u_done := u_done s @ [(op, r)]\<rparr>)"
proof -
  have "u_live s = set (bufs (xs @ ys)) \<union> set (bufs (u_cq s @ [op]))"
    using a ring by (auto simp: accounted_def)
  then show ?thesis using a ring by (auto simp: accounted_def)
qed

lemma reap_accounted:
  assumes a: "accounted ops subm s" and cq: "u_cq s = op # rest"
  shows "accounted ops subm
    (s\<lparr>u_cq := rest, u_reaped := Suc (u_reaped s), u_live := u_live s - set (bufs_of op)\<rparr>)"
proof -
  have "distinct (bufs (u_ring s) @ bufs_of op @ bufs rest)"
    using accounted_distinct [OF a] cq by simp
  then have "u_live s - set (bufs_of op) = set (bufs (u_ring s)) \<union> set (bufs rest)"
    using a cq by (auto simp: accounted_def)
  moreover obtain reaped where "map fst (u_done s) = reaped @ u_cq s" "length reaped = u_reaped s"
    using a by (auto simp: accounted_def)
  then have "map fst (u_done s) = (reaped @ [op]) @ rest \<and> length (reaped @ [op]) = Suc (u_reaped s)"
    using cq by simp
  ultimately show ?thesis using a unfolding accounted_def by auto
qed

lemma inv_frame:
  assumes "uring_inv ops expected rqs s" and "running s" and "u_main s' = u_main s"
    and "u_pending s' = u_pending s" and "\<And>subm. accounted ops subm s \<Longrightarrow> accounted ops subm s'"
    and "int (u_reaped s') \<le> max 0 expected"
  shows "uring_inv ops expected rqs s'"
proof -
  have "u_main s \<noteq> Returned Status_OK" using assms(2) by (auto simp: running_def)
  then show ?thesis using assms unfolding uring_inv_def by metis
qed

lemma step_inv:
  assumes "uring_step submit expected s s'" and inv: "uring_inv ops expected rqs s"
  shows "uring_inv ops expected rqs s'"
  using assms
proof (cases rule: uring_step.cases)
  case (submit rq)
  then show ?thesis using submit_inv inv by blast
next
  case (complete xs op ys r)
  show ?thesis
    using complete inv by (intro inv_frame [OF inv]) (auto simp: uring_inv_def intro: complete_accounted)
next
  case (reap op rest)
  show ?thesis
    using reap by (intro inv_frame [OF inv]) (auto intro: reap_accounted)
next
  case wait_fails
  then show ?thesis using inv unfolding uring_inv_def accounted_def by auto
next
  case join
  then show ?thesis using inv unfolding uring_inv_def accounted_def by auto
qed

lemma reachable_inv:
  assumes "uring_reachable submit expected s0 s" and "uring_inv ops expected rqs s0"
  shows "uring_inv ops expected rqs s"
  using assms by (induction rule: uring_reachable.induct) (blast intro: step_inv)+

text \<open>A handler that returns has waited for \<open>expected\<close> completions, unless a wait failed.\<close>

lemma returned_enough:
  assumes "uring_inv ops expected rqs s" and "u_main s = Returned Status_OK" and "\<not> u_quit s"
  shows "expected \<le> int (width * length rqs)"
proof -
  have a: "accounted ops rqs s" and e: "expected \<le> int (u_reaped s)"
    using assms by (auto simp: uring_inv_def)
  have "u_reaped s \<le> width * length rqs" using accounted_length [OF a] by linarith
  then have "int (u_reaped s) \<le> int (width * length rqs)" by (simp only: of_nat_le_iff)
  with e show ?thesis by linarith
qed

lemma returned_complete:
  assumes "uring_inv ops (int (width * length rqs)) rqs s"
    and "u_main s = Returned Status_OK" and "\<not> u_quit s"
  shows "u_ring s = [] \<and> u_cq s = [] \<and> u_live s = {} \<and> mset (map fst (u_done s)) = mset (all_ops ops rqs)"
proof -
  have a: "accounted ops rqs s" and e: "int (width * length rqs) \<le> int (u_reaped s)"
    using assms by (auto simp: uring_inv_def)
  from e have "width * length rqs \<le> u_reaped s" by (simp only: of_nat_le_iff)
  then have "length (u_ring s) = 0 \<and> length (u_cq s) = 0" using accounted_length [OF a] by linarith
  then have "u_ring s = [] \<and> u_cq s = []" by simp
  then show ?thesis using a by (auto simp: accounted_def)
qed

text \<open>Every buffer that is freed is live at that moment.\<close>

lemma reap_frees_live:
  assumes "uring_inv ops expected rqs s" and "u_cq s = op # rest"
  shows "set (bufs_of op) \<subseteq> u_live s"
  using assms by (auto simp: uring_inv_def accounted_def)

text \<open>Termination: every step decreases this measure.\<close>

definition work :: "uring_state \<Rightarrow> nat" where
  "work s = (2 * width + 2) * (case u_main s of Handling _ \<Rightarrow> Suc (length (u_pending s)) | _ \<Rightarrow> 0) +
     2 * length (u_ring s) + length (u_cq s) + (if u_quit s then 0 else 1) +
     (if u_main s = Joining then 1 else 0)"

lemma work_decreases:
  assumes "uring_step submit expected s s'"
  shows "work s' < work s"
  using assms
proof (cases rule: uring_step.cases)
  case (submit rq)
  from submit_effect [OF submit(2)] show ?thesis
    using submit(1)
    by (auto simp: work_def gives_up_def crash_def read_next_def queue_ops_def ops_width split: list.splits)
qed (auto simp: work_def cong: main_pc.case_cong)

lemma no_infinite_run: "\<nexists>f. \<forall>i. uring_step submit expected (f i) (f (Suc i))"
proof
  assume "\<exists>f. \<forall>i. uring_step submit expected (f i) (f (Suc i))"
  then obtain f where "\<And>i. work (f (Suc i)) < work (f i)" using work_decreases by blast
  then have "\<And>i. (f (Suc i), f i) \<in> measure work" by simp
  then show False using wf_iff_no_infinite_down_chain [of "measure work"] by auto
qed

text \<open>Progress: a handler whose submissions succeed is never stuck while completions can still come.\<close>

definition succeeds :: "file_request list \<Rightarrow> bool" where
  "succeeds rqs \<longleftrightarrow> (\<forall>rq s. rq \<in> set rqs \<longrightarrow> u_n s < length rqs \<longrightarrow>
     (\<exists>s'. submit rq s s') \<and> (\<forall>s'. submit rq s s' \<longrightarrow> s' = read_next (queue_ops (ops (u_n s) rq) s)))"

definition healthy :: "uring_state \<Rightarrow> bool" where
  "healthy s \<longleftrightarrow> (case u_main s of Handling _ \<Rightarrow> True | Joining \<Rightarrow> True | Returned st \<Rightarrow> st = Status_OK | _ \<Rightarrow> False)"

lemma handling_in_range:
  assumes "uring_inv ops expected rqs s" and "u_main s = Handling rq"
  shows "rq \<in> set rqs" and "u_n s < length rqs"
  using assms by (auto simp: uring_inv_def accounted_def)

lemma step_healthy:
  assumes "uring_step submit expected s s'" and "uring_inv ops expected rqs s" and "healthy s"
    and "succeeds rqs"
  shows "healthy s'"
  using assms(1)
proof (cases rule: uring_step.cases)
  case (submit rq)
  then have "s' = read_next (queue_ops (ops (u_n s) rq) s)"
    using handling_in_range [OF assms(2) submit(1)] assms(4) by (auto simp: succeeds_def)
  then show ?thesis by (auto simp: healthy_def read_next_def queue_ops_def split: list.splits)
qed (use assms(3) in \<open>auto simp: healthy_def\<close>)

lemma reachable_healthy:
  assumes "uring_reachable submit expected s0 s" and "uring_inv ops expected rqs s0" and "healthy s0"
    and "succeeds rqs"
  shows "healthy s"
  using assms(1)
proof (induction rule: uring_reachable.induct)
  case (step s s')
  then show ?case using step_healthy reachable_inv assms(2,4) by blast
qed (use assms in simp)

lemma startable_exists:
  assumes "ring \<noteq> []"
  shows "\<exists>xs op ys. ring = xs @ op # ys \<and> startable (xs @ ys) op \<and> res_ok op 0"
proof (cases "\<exists>fd i d. Uwrite fd i d \<in> set ring")
  case True
  then obtain xs fd i d ys where "ring = xs @ Uwrite fd i d # ys" by (meson split_list)
  then show ?thesis by (intro exI [of _ xs] exI [of _ "Uwrite fd i d"] exI [of _ ys]) simp
next
  case False
  then have none: "bufs_of op = []" if "op \<in> set ring" for op using that by (cases op) auto
  obtain op ys where r: "ring = op # ys" using assms by (cases ring) auto
  then have "startable ys op \<and> res_ok op 0" using none by (cases op) auto
  then show ?thesis using r by (intro exI [of _ "[]"]) auto
qed

lemma progress:
  assumes inv: "uring_inv ops expected rqs s" and "healthy s" and "succeeds rqs"
    and enough: "expected \<le> int (width * length rqs)"
  shows "u_main s = Returned Status_OK \<or> (\<exists>s'. uring_step submit expected s s')"
proof (cases "u_main s")
  case (Handling rq)
  then show ?thesis
    using handling_in_range [OF inv Handling] assms(3) uring_step.submit by (metis succeeds_def)
next
  case Joining
  then have run: "running s" and a: "accounted ops rqs s" using inv by (auto simp: running_def uring_inv_def)
  show ?thesis
  proof (cases "u_quit s \<or> expected \<le> int (u_reaped s)")
    case True
    then show ?thesis using uring_step.join [OF Joining] by blast
  next
    case False
    show ?thesis
    proof (cases "u_cq s")
      case (Cons op rest)
      then show ?thesis using uring_step.reap [OF run _ _ Cons, of expected submit] False by auto
    next
      case Nil
      have "int (u_reaped s) < int (width * length rqs)" using False enough by linarith
      then have "u_reaped s < width * length rqs" by (simp only: of_nat_less_iff)
      then have "u_ring s \<noteq> []" using accounted_length [OF a] Nil by auto
      from startable_exists [OF this] show ?thesis using uring_step.complete [OF run] by blast
    qed
  qed
qed (use assms(2) in \<open>auto simp: healthy_def\<close>)

end

section \<open>The three handlers\<close>

definition copied :: "nat \<Rightarrow> file_request \<Rightarrow> byte list" where
  "copied bs rq = take bs (c_str (file_data rq))"

definition large_ops :: "nat \<Rightarrow> int \<Rightarrow> nat \<Rightarrow> file_request \<Rightarrow> uop list" where
  "large_ops bs fd i rq = [Uwrite fd i (copied bs rq)]"

definition expr_ops :: "nat \<Rightarrow> int list \<Rightarrow> nat \<Rightarrow> file_request \<Rightarrow> uop list" where
  "expr_ops bs fds i rq = [Uwrite (fds ! (i mod length fds)) i (copied bs rq)]"


definition copyable :: "nat \<Rightarrow> file_request \<Rightarrow> bool" where
  "copyable bs rq \<longleftrightarrow> bs \<le> length (file_data rq) + 1"

lemma memcpy_copied:
  "memcpy_from (c_str (file_data rq)) bs = (if copyable bs rq then Inr (copied bs rq) else Inl Overread)"
  by (auto simp: memcpy_from_def copyable_def copied_def c_str_def)

lemma expr_fd_eq:
  "int n < INT_MAX \<Longrightarrow> fds \<noteq> [] \<Longrightarrow> expr_fd fds n = Inr (fds ! (n mod length fds))"
proof -
  assume "int n < INT_MAX" and fds: "fds \<noteq> []"
  then have "c_rem (int n) (int (length fds)) = Inr (int n mod int (length fds))"
    by (intro c_rem_pos) (auto simp: is_int_def)
  then show ?thesis using \<open>int n < INT_MAX\<close> by (simp add: expr_fd_def zmod_int [symmetric])
qed

lemma expr_fd_Inr: "expr_fd fds n = Inr fd \<Longrightarrow> fd = fds ! (n mod length fds)"
  using expr_fd_eq [of n fds] by (cases "fds = []") (auto simp: expr_fd_def c_rem_def split: if_splits)

interpretation large_uring: uring_handler "large_sub env bs fd" "large_ops bs fd" 1 for env bs fd
proof
  fix rq s s'
  assume "large_sub env bs fd rq s s'"
  then show "gives_up s s' \<or> s' = s\<lparr>u_main := Spinning\<rparr> \<or>
      s' = read_next (queue_ops (large_ops bs fd (u_n s) rq) s)"
    by (auto simp: large_sub_def large_submit_def memcpy_copied large_ops_def)
qed (simp_all add: large_ops_def)

interpretation expr_uring: uring_handler "expr_sub env bs fds" "expr_ops bs fds" 1 for env bs fds
proof
  fix rq s s'
  assume "expr_sub env bs fds rq s s'"
  then show "gives_up s s' \<or> s' = s\<lparr>u_main := Spinning\<rparr> \<or>
      s' = read_next (queue_ops (expr_ops bs fds (u_n s) rq) s)"
    by (auto simp: expr_sub_def expr_submit_def memcpy_copied expr_ops_def dest: expr_fd_Inr
        split: if_splits sum.splits)
qed (simp_all add: expr_ops_def)


section \<open>Starting states\<close>

definition requests_of :: "file_request list \<Rightarrow> file_request list" where
  "requests_of rqs = (if rqs = [] then [empty_file_request] else rqs)"

lemma first_read_inv: "uring_inv ops expected (requests_of rqs) (first_read (uring_idle rqs))"
proof -
  obtain rq rest where r: "requests_of rqs = rq # rest" by (cases rqs) (auto simp: requests_of_def)
  have "uring_inv ops expected (rq # u_pending (first_read (uring_idle rqs))) (first_read (uring_idle rqs))"
    using r by (intro uring_inv_idle)
      (auto simp: first_read_def uring_idle_def requests_of_def split: list.splits if_splits)
  moreover have "u_pending (first_read (uring_idle rqs)) = rest"
    using r by (auto simp: first_read_def uring_idle_def requests_of_def split: list.splits if_splits)
  ultimately show ?thesis using r by simp
qed

lemma large_start_inv: "0 \<le> fd \<Longrightarrow> uring_inv ops expected (requests_of rqs) (large_start 0 fd rqs)"
  by (simp add: large_start_def first_read_inv)


lemma expr_start_inv:
  assumes "0 \<le> fn" and "\<forall>fd \<in> set fds. 0 \<le> fd"
  shows "uring_inv ops expected rqs (expr_start 0 fn fds rqs)"
proof -
  have "expr_start 0 fn fds rqs = read_next (uring_idle rqs)"
    using assms by (auto simp: expr_start_def)
  moreover have "uring_inv ops expected rqs (read_next (uring_idle rqs))"
  proof (cases rqs)
    case Nil
    then show ?thesis
      by (simp add: uring_inv_def accounted_def read_next_def uring_idle_def)
  next
    case (Cons rq rest)
    have "uring_inv ops expected (rq # u_pending (read_next (uring_idle rqs))) (read_next (uring_idle rqs))"
      using Cons by (intro uring_inv_idle) (auto simp: read_next_def uring_idle_def)
    then show ?thesis using Cons by (simp add: read_next_def uring_idle_def)
  qed
  ultimately show ?thesis by simp
qed

section \<open>What ends up in a file\<close>







section \<open>Closing after writing\<close>





section \<open>Taking turns\<close>

lemma all_ops_expr: "all_ops (expr_ops bs fds) rqs =
    map (\<lambda>(i, rq). Uwrite (fds ! (i mod length fds)) i (copied bs rq)) (enumerate 0 rqs)"
  unfolding all_ops_def expr_ops_def by (induction rqs rule: rev_induct) (auto simp: enumerate_append_eq)

lemma turns_count: "j < k \<Longrightarrow> length (filter (\<lambda>i. i mod k = j) [0..<m]) = (m + (k - 1 - j)) div k"
proof (induction m)
  case (Suc m)
  have "(Suc m + (k - 1 - j)) div k = (m + (k - 1 - j)) div k + (if m mod k = j then 1 else 0)"
  proof -
    have k: "0 < k" using Suc.prems by simp
    have "(Suc (m + (k - 1 - j))) mod k = 0 \<longleftrightarrow> m mod k = j"
    proof -
      have "Suc (m + (k - 1 - j)) = m + (k - j)" using Suc.prems by simp
      moreover have "(m + (k - j)) mod k = 0 \<longleftrightarrow> (m mod k + (k - j)) mod k = 0" by (simp add: mod_add_left_eq)
      moreover have "(m mod k + (k - j)) mod k = 0 \<longleftrightarrow> m mod k = j"
      proof (cases "m mod k < j")
        case True
        then have "m mod k + (k - j) < k" "0 < m mod k + (k - j)" using Suc.prems by simp_all
        then show ?thesis using True Suc.prems by auto
      next
        case False
        then have "m mod k + (k - j) = k + (m mod k - j)" using Suc.prems by simp
        then have "(m mod k + (k - j)) mod k = (m mod k - j) mod k" by simp
        moreover have "m mod k - j < k" using k by (simp add: less_imp_diff_less)
        ultimately show ?thesis using False by simp
      qed
      ultimately show ?thesis by metis
    qed
    then show ?thesis by (simp add: div_Suc)
  qed
  then show ?case using Suc by simp
qed simp

lemma expr_name_inj:
  assumes "0 \<le> a" and "0 \<le> b" and "expr_name a i = expr_name b j"
  shows "a = b \<and> i = j"
proof -
  have "to_string a @ CHR ''-'' # to_string i = to_string b @ CHR ''-'' # to_string j"
    using assms(3) by (simp add: expr_name_def)
  moreover have "CHR ''-'' \<notin> set (to_string a)" "CHR ''-'' \<notin> set (to_string b)"
    using assms(1,2) nat_to_string_no_dash by (simp_all add: to_string_def)
  ultimately have "to_string a = to_string b \<and> to_string i = to_string j" by (meson append_sep_inj)
  then show ?thesis by simp
qed

lemma nonces_eq: "dummy srv = int k \<Longrightarrow> k + n \<le> 2 ^ 31 \<Longrightarrow> nonces n srv = map int [k..<k + n]"
proof (induction n arbitrary: srv k)
  case (Suc n)
  show ?case
  proof (cases n)
    case 0
    then show ?thesis using Suc.prems by (simp add: take_nonce_def)
  next
    case (Suc m)
    then have "is_int (int k + 1)" using Suc.prems by (simp add: is_int_def)
    then have "nonces n (srv\<lparr>dummy := to_int32 (dummy srv + 1)\<rparr>) = map int [Suc k..<Suc k + n]"
      using Suc.prems Suc.IH [of "srv\<lparr>dummy := to_int32 (dummy srv + 1)\<rparr>" "Suc k"] by (simp add: add.commute)
    then show ?thesis using Suc.prems by (simp add: take_nonce_def upt_conv_Cons)
  qed
qed simp

section \<open>A concrete run\<close>

definition one_request :: file_request where
  "one_request = \<lparr>filename = ''/mnt/large-file'', file_data = [1, 2, 3]\<rparr>"

definition one_run :: "main_pc \<Rightarrow> nat \<Rightarrow> uop list \<Rightarrow> uop list \<Rightarrow> nat \<Rightarrow> nat set \<Rightarrow> (uop \<times> int) list \<Rightarrow> uring_state" where
  "one_run m n ring cq k live dn = \<lparr>u_main = m, u_pending = [], u_n = n, u_ring = ring, u_cq = cq,
     u_reaped = k, u_quit = False, u_live = live, u_done = dn\<rparr>"

lemma one_request_run:
  assumes sub: "submit rq (one_run (Handling rq) 0 [] [] 0 {} []) (one_run Joining 1 [Uwrite fd 0 d] [] 0 {0} [])"
  shows "uring_reachable submit 1 (one_run (Handling rq) 0 [] [] 0 {} [])
     (one_run (Returned Status_OK) 1 [] [] 1 {} [(Uwrite fd 0 d, int (length d))])"
proof -
  let ?W = "Uwrite fd 0 d" and ?n = "int (length d)"
  have s1: "uring_step submit 1 (one_run (Handling rq) 0 [] [] 0 {} []) (one_run Joining 1 [?W] [] 0 {0} [])"
    using sub by (intro uring_step.submit [of _ rq]) (simp_all add: one_run_def)
  have s2: "uring_step submit 1 (one_run Joining 1 [?W] [] 0 {0} []) (one_run Joining 1 [] [?W] 0 {0} [(?W, ?n)])"
    using uring_step.complete [of "one_run Joining 1 [?W] [] 0 {0} []" "[]" ?W "[]" ?n submit 1]
    by (simp add: one_run_def running_def)
  have s3: "uring_step submit 1 (one_run Joining 1 [] [?W] 0 {0} [(?W, ?n)]) (one_run Joining 1 [] [] 1 {} [(?W, ?n)])"
    using uring_step.reap [of "one_run Joining 1 [] [?W] 0 {0} [(?W, ?n)]" 1 ?W "[]" submit]
    by (simp add: one_run_def running_def)
  have s4: "uring_step submit 1 (one_run Joining 1 [] [] 1 {} [(?W, ?n)])
      (one_run (Returned Status_OK) 1 [] [] 1 {} [(?W, ?n)])"
    using uring_step.join [of "one_run Joining 1 [] [] 1 {} [(?W, ?n)]" 1 submit] by (simp add: one_run_def)
  show ?thesis
    by (rule uring_reachable.step [OF uring_reachable.step [OF uring_reachable.step [OF uring_reachable.step
            [OF uring_reachable.start s1] s2] s3] s4])
qed


lemma expr_one_run:
  assumes "\<forall>fd \<in> set fds. 0 \<le> fd" and "fds \<noteq> []" and "0 \<le> fn" and "copyable bs rq"
  shows "uring_reachable (expr_sub {(True, True)} bs fds) 1 (expr_start 0 fn fds [rq])
     (one_run (Returned Status_OK) 1 [] [] 1 {} [(Uwrite (fds ! 0) 0 (copied bs rq), int (length (copied bs rq)))])"
proof -
  have "expr_start 0 fn fds [rq] = one_run (Handling rq) 0 [] [] 0 {} []"
    using assms(1,3) by (auto simp: expr_start_def read_next_def uring_idle_def one_run_def)
  moreover have "c_rem 0 (int (length fds)) = Inr 0" using assms(2) by (simp add: c_rem_pos is_int_def)
  then have "expr_sub {(True, True)} bs fds rq (one_run (Handling rq) 0 [] [] 0 {} [])
      (one_run Joining 1 [Uwrite (fds ! 0) 0 (copied bs rq)] [] 0 {0} [])"
    using assms(4)
    by (simp add: one_run_def expr_sub_def expr_submit_def expr_fd_def memcpy_copied read_next_def queue_ops_def)
  ultimately show ?thesis using one_request_run by metis
qed

section \<open>Properties\<close>



text \<open>the completion thread waits for the announced number of completions: if the client
  announced more requests than it sends, \<^verbatim>\<open>AppendOneLargeFileAsync\<close> never returns OK (unless a
  wait on the ring fails).\<close>

theorem uring_large_blocks:
  assumes "0 \<le> fd" and "int (length (requests_of rqs)) < expected"
    and "uring_reachable (large_sub env bs fd) expected (large_start 0 fd rqs) s" and "\<not> u_quit s"
  shows "u_main s \<noteq> Returned Status_OK"
  using large_uring.returned_enough [OF large_uring.reachable_inv [OF assms(3) large_start_inv [OF assms(1)]]]
    assms(2,4) by auto

theorem uring_large_blocks_witness:
  "u_main (large_start 0 3 [one_request]) \<noteq> Returned Status_OK"
proof (rule uring_large_blocks [of 3 "[one_request]" 2, OF _ _ uring_reachable.start])
  show "\<not> u_quit (large_start 0 3 [one_request])"
    by (simp add: large_start_def first_read_def uring_idle_def)
qed (simp_all add: requests_of_def)

text \<open>C27: termination of \<^verbatim>\<open>AppendOneLargeFileAsync\<close>: when allocations and submissions succeed, the
  requests carry enough data and at most as many completions are expected as there are requests, no
  run is infinite, and a run that cannot go on has returned OK.\<close>

theorem uring_large_terminates:
  assumes "0 \<le> fd" and "\<forall>rq \<in> set (requests_of rqs). copyable bs rq"
    and "expected \<le> int (length (requests_of rqs))"
  shows "(\<nexists>f. \<forall>i. uring_step (large_sub {(True, True)} bs fd) expected (f i) (f (Suc i))) \<and>
    (\<forall>s. uring_reachable (large_sub {(True, True)} bs fd) expected (large_start 0 fd rqs) s \<longrightarrow>
       u_main s = Returned Status_OK \<or> (\<exists>s'. uring_step (large_sub {(True, True)} bs fd) expected s s'))"
proof (intro conjI allI impI)
  show "\<nexists>f. \<forall>i. uring_step (large_sub {(True, True)} bs fd) expected (f i) (f (Suc i))"
    by (rule large_uring.no_infinite_run)
  fix s
  assume r: "uring_reachable (large_sub {(True, True)} bs fd) expected (large_start 0 fd rqs) s"
  have ok: "large_uring.succeeds {(True, True)} bs fd (requests_of rqs)"
    using assms(2)
    by (auto simp: large_uring.succeeds_def large_sub_def large_submit_def memcpy_copied large_ops_def)
  have inv: "uring_inv (large_ops bs fd) expected (requests_of rqs) (large_start 0 fd rqs)"
    by (rule large_start_inv [OF assms(1)])
  have "large_uring.healthy (large_start 0 fd rqs)"
    using assms(1) by (auto simp: large_uring.healthy_def large_start_def first_read_def split: list.splits)
  from large_uring.progress [OF large_uring.reachable_inv [OF r inv]
      large_uring.reachable_healthy [OF r inv this ok] ok] assms(3)
  show "u_main s = Returned Status_OK \<or> (\<exists>s'. uring_step (large_sub {(True, True)} bs fd) expected s s')"
    by simp
qed

theorem uring_large_terminates_witness:
  "(\<nexists>f. \<forall>i. uring_step (large_sub {(True, True)} 2 3) 1 (f i) (f (Suc i))) \<and>
   (\<exists>s'. uring_step (large_sub {(True, True)} 2 3) 1 (large_start 0 3 [one_request]) s')"
proof -
  have "u_main (large_start 0 3 [one_request]) \<noteq> Returned Status_OK"
    by (simp add: large_start_def first_read_def uring_idle_def)
  moreover have "\<forall>rq \<in> set (requests_of [one_request]). copyable 2 rq"
    by (simp add: requests_of_def copyable_def one_request_def)
  ultimately show ?thesis
    using uring_large_terminates [of 3 "[one_request]" 2 1] uring_reachable.start
    by (fastforce simp: requests_of_def)
qed



text \<open>with a ring of one entry \<^verbatim>\<open>AppendManySmallFilesAsync\<close> never returns: it spins for the entry
  of the close, which is only freed by submitting the write it has not submitted yet.\<close>

theorem uring_small_one_entry_spins:
  assumes "entries < 2" and "\<And>i. 0 \<le> fd_of i" and "\<forall>rq \<in> set (requests_of rqs). copyable bs rq"
    and "uring_reachable (small_sub {True} bs entries fd_of) expected (small_start 0 rqs) s"
  shows "(\<exists>rq \<in> set (requests_of rqs). u_main s = Handling rq) \<or> u_main s = Spinning"
  using assms(4)
proof (induction rule: uring_reachable.induct)
  case start
  show ?case
    by (auto simp: small_start_def first_read_def uring_idle_def requests_of_def split: list.split)
next
  case (step s s')
  from step.hyps(2) show ?case
  proof (cases rule: uring_step.cases)
    case (submit rq)
    then have "rq \<in> set (requests_of rqs)" using step.IH by auto
    then have "copyable bs rq" using assms(3) by blast
    then show ?thesis
      using submit assms(1) assms(2) [of "u_n s"]
      by (auto simp: small_sub_def small_submit_def memcpy_copied)
  qed (use step.IH in auto)
qed

theorem uring_small_one_entry_spins_witness:
  "(\<exists>rq \<in> set (requests_of [one_request]). u_main (small_start 0 [one_request]) = Handling rq) \<or>
   u_main (small_start 0 [one_request]) = Spinning"
  by (rule uring_small_one_entry_spins [of 1 "\<lambda>_. 5" "[one_request]" 2, OF _ _ _ uring_reachable.start])
    (simp_all add: requests_of_def copyable_def one_request_def)

text \<open>\<^verbatim>\<open>AppendOneLargeFileAsyncExpr\<close> spreads its requests evenly: of \<open>m\<close> requests file \<open>j\<close> of \<open>k\<close>
  gets \<open>(m + (k - 1 - j)) div k\<close> writes, so two files never differ by more than one.\<close>

theorem uring_expr_balanced:
  assumes "distinct fds" and "j < length fds"
  shows "length (filter (\<lambda>op. \<exists>i d. op = Uwrite (fds ! j) i d) (all_ops (expr_ops bs fds) rqs))
     = (length rqs + (length fds - 1 - j)) div length fds"
proof -
  let ?k = "length fds"
  have "(\<lambda>op. \<exists>i d. op = Uwrite (fds ! j) i d) \<circ> (\<lambda>(i, rq). Uwrite (fds ! (i mod ?k)) i (copied bs rq))
      = (\<lambda>i. i mod ?k = j) \<circ> fst"
  proof (rule ext)
    fix c :: "nat \<times> file_request"
    have "fst c mod ?k < ?k" using assms(2) by (intro mod_less_divisor) (rule le_less_trans [OF le0])
    then have "fds ! (fst c mod ?k) = fds ! j \<longleftrightarrow> fst c mod ?k = j"
      using assms by (simp add: nth_eq_iff_index_eq)
    then show "((\<lambda>op. \<exists>i d. op = Uwrite (fds ! j) i d) \<circ> (\<lambda>(i, rq). Uwrite (fds ! (i mod ?k)) i (copied bs rq))) c
        = ((\<lambda>i. i mod ?k = j) \<circ> fst) c"
      by (cases c) auto
  qed
  then have "length (filter (\<lambda>op. \<exists>i d. op = Uwrite (fds ! j) i d) (all_ops (expr_ops bs fds) rqs))
      = length (filter (\<lambda>i. i mod ?k = j) (map fst (enumerate 0 rqs)))"
    unfolding all_ops_expr filter_map by simp
  then show ?thesis using turns_count [OF assms(2)] by simp
qed

theorem uring_expr_balanced_witness:
  "length (filter (\<lambda>op. \<exists>i d. op = Uwrite ([3, 4, 5] ! 1) i d)
      (all_ops (expr_ops 2 [3, 4, 5]) (replicate 7 one_request))) = (7 + (3 - 1 - 1)) div 3"
  using uring_expr_balanced [of "[3, 4, 5]" 1 2 "replicate 7 one_request"] by simp

text \<open>the completion thread of \<^verbatim>\<open>AppendOneLargeFileAsyncExpr\<close> never frees a buffer twice and never
  frees one the kernel still uses: in every reachable state the buffer of the completion it reaps next
  is allocated, and belongs to no other completion and to no entry in flight.\<close>

theorem uring_expr_frees_live:
  assumes "0 \<le> fn" and "\<forall>fd \<in> set fds. 0 \<le> fd"
    and "uring_reachable (expr_sub env bs fds) expected (expr_start 0 fn fds rqs) s"
    and "u_cq s = op # rest"
  shows "set (bufs_of op) \<subseteq> u_live s \<and> set (bufs_of op) \<inter> set (bufs (u_ring s @ rest)) = {}"
proof -
  have inv: "uring_inv (expr_ops bs fds) expected rqs s"
    by (rule expr_uring.reachable_inv [OF assms(3) expr_start_inv [OF assms(1,2)]])
  then obtain subm where "accounted (expr_ops bs fds) subm s" by (auto simp: uring_inv_def)
  from expr_uring.accounted_distinct [OF this] show ?thesis
    using expr_uring.reap_frees_live [OF inv assms(4)] assms(4) by auto
qed

theorem uring_expr_frees_live_witness:
  "\<exists>s :: uring_state. u_cq s = [Uwrite 3 0 [1, 2]] \<and>
     (set (bufs_of (Uwrite 3 0 [1, 2])) \<subseteq> u_live s \<and> set (bufs_of (Uwrite 3 0 [1, 2])) \<inter> set (bufs (u_ring s @ [])) = {})"
proof -
  let ?W = "Uwrite 3 0 [1, 2]" and ?S = "expr_sub {(True, True)} 2 [3, 4]"
  have s0: "expr_start 0 2 [3, 4] [one_request] = one_run (Handling one_request) 0 [] [] 0 {} []"
    by (simp add: expr_start_def read_next_def uring_idle_def one_run_def)
  have s1: "uring_step ?S 1 (one_run (Handling one_request) 0 [] [] 0 {} []) (one_run Joining 1 [?W] [] 0 {0} [])"
    by (rule uring_step.submit [of _ one_request])
      (simp_all add: one_run_def expr_sub_def expr_submit_def expr_fd_eq memcpy_from_def c_str_def
        one_request_def read_next_def queue_ops_def)
  have s2: "uring_step ?S 1 (one_run Joining 1 [?W] [] 0 {0} []) (one_run Joining 1 [] [?W] 0 {0} [(?W, 2)])"
    using uring_step.complete [of "one_run Joining 1 [?W] [] 0 {0} []" "[]" ?W "[]" 2 ?S 1]
    by (simp add: one_run_def running_def)
  have r: "uring_reachable ?S 1 (expr_start 0 2 [3, 4] [one_request]) (one_run Joining 1 [] [?W] 0 {0} [(?W, 2)])"
    unfolding s0 by (rule uring_reachable.step [OF uring_reachable.step [OF uring_reachable.start s1] s2])
  have cq: "u_cq (one_run Joining 1 [] [?W] 0 {0} [(?W, 2)]) = ?W # []" by (simp add: one_run_def)
  show ?thesis
    by (rule exI, rule conjI [OF cq]) (rule uring_expr_frees_live [OF _ _ r cq], simp_all)
qed

lemma expr_names_distinct: "distinct (concat (map (\<lambda>nonce. expr_names (int nonce) fn) [0..<calls]))"
proof -
  let ?g = "\<lambda>(a, i). expr_name (int a) (int i)"
  have "concat (map (\<lambda>nonce. expr_names (int nonce) fn) [0..<calls]) =
      map ?g (List.product [0..<calls] [0..<nat fn])"
    by (simp add: expr_names_def product_concat_map map_concat comp_def)
  moreover have "inj_on ?g X" for X
  proof (rule inj_onI, clarify)
    fix a i b j
    assume "expr_name (int a) (int i) = expr_name (int b) (int j)"
    then have "int a = int b \<and> int i = int j" by (intro expr_name_inj) simp_all
    then show "a = b \<and> i = j" by simp
  qed
  ultimately show ?thesis by (simp add: distinct_map distinct_product)
qed

text \<open>no two of the first \<open>2 ^ 31\<close> calls of \<^verbatim>\<open>AppendOneLargeFileAsyncExpr\<close> of a server share a
  file, nor do two files of a call: the names of the files of all calls are pairwise different.\<close>

theorem uring_expr_names_distinct:
  assumes "dummy srv = 0" and "calls \<le> 2 ^ 31"
  shows "distinct (concat (map (\<lambda>nonce. expr_names nonce fn) (nonces calls srv)))"
proof -
  have "nonces calls srv = map int [0..<calls]" using nonces_eq [of srv 0 calls] assms by simp
  then show ?thesis using expr_names_distinct [of fn calls] by (simp add: comp_def)
qed

theorem uring_expr_names_distinct_witness:
  "distinct (concat (map (\<lambda>nonce. expr_names nonce 2) (nonces 3 file_server0)))"
  by (rule uring_expr_names_distinct) (simp_all add: file_server0_def)

end
