(* ===== verification/File_Server.thy ===== *)
theory File_Server
  imports Uring_Service
begin

text \<open>
  The rest of \<^verbatim>\<open>src/src/file_target.cc\<close>: what the three io_uring handlers do after their completion
  thread has been joined (the ring and the files are closed, the report is sent), and \<^verbatim>\<open>main\<close> with the
  constructor of the server. The states in which a handler gets here are the \<open>Joining\<close> states of
  \<open>Uring_Service\<close> whose thread has ended.
\<close>

section \<open>Times\<close>

text \<open>The pairs of clock readings around the copies (or opens); a local \<^verbatim>\<open>time_point\<close> starts at the epoch.\<close>

type_synonym laps = "(int \<times> int) list"

definition lap_time :: "laps \<Rightarrow> int" where
  "lap_time ls = (\<Sum>(start, stop) \<leftarrow> ls. stop - start)"

section \<open>After the join\<close>

fun close_all :: "'w posix \<Rightarrow> int list \<Rightarrow> 'w \<Rightarrow> 'w" where
  "close_all px [] w = w"
| "close_all px (fd # fds) w = close_all px fds (snd (px_close px fd w))"

text \<open>\<open>queue_exit\<close> is \<^verbatim>\<open>io_uring_queue_exit\<close>; the results of \<^verbatim>\<open>close\<close> and of the final \<^verbatim>\<open>Write\<close> are ignored.\<close>

definition uring_epilogue ::
  "'w posix \<Rightarrow> 'w stream \<Rightarrow> ('w \<Rightarrow> 'w) \<Rightarrow> int list \<Rightarrow> (string \<times> int) list \<Rightarrow> int \<Rightarrow> 'w \<Rightarrow> grpc_status \<times> 'w" where
  "uring_epilogue px st queue_exit fds rows total_start w =
     (case px_now px (close_all px fds (queue_exit w)) of (now, w1) \<Rightarrow>
      case st_write st \<lparr>reply_stats = render_stat (rows @ [(''total time on server is '', now - total_start)])\<rparr> w1
      of (_, w2) \<Rightarrow> (Status_OK, w2))"

definition large_epilogue where
  "large_epilogue px st queue_exit fd copies =
     uring_epilogue px st queue_exit [fd] [(''time on copy is '', lap_time copies)]"

definition expr_epilogue where
  "expr_epilogue px st queue_exit fds copies =
     uring_epilogue px st queue_exit fds [(''time on copy is '', lap_time copies)]"

text \<open>The small files are closed by ring operations, not here.\<close>

definition small_epilogue where
  "small_epilogue px st queue_exit copies opens =
     uring_epilogue px st queue_exit []
       [(''time on copy is '', lap_time copies), (''time on open files is '', lap_time opens)]"

section \<open>The program\<close>

text \<open>The constructor sets two members and leaves the others as they are in memory.\<close>

definition GRPCFileServerSync :: "file_server \<Rightarrow> string \<Rightarrow> int \<Rightarrow> file_server" where
  "GRPCFileServerSync memory addr port = memory\<lparr>fs_address := addr, fs_port := port, dummy := 0\<rparr>"

definition file_target_main :: "(string \<Rightarrow> 'w \<Rightarrow> 'w) \<Rightarrow> file_server \<Rightarrow> 'w \<Rightarrow> 'w" where
  "file_target_main serve memory w = snd (file_run serve (GRPCFileServerSync memory ''0.0.0.0'' 9876) w)"

section \<open>Lemmas\<close>

fun readings :: "laps \<Rightarrow> int list" where
  "readings [] = []"
| "readings ((start, stop) # ls) = start # stop # readings ls"

lemma lap_time_Cons: "lap_time ((start, stop) # ls) = (stop - start) + lap_time ls"
  by (simp add: lap_time_def)

lemma lap_time_bounds: "sorted (t # readings ls) \<Longrightarrow> 0 \<le> lap_time ls \<and> t + lap_time ls \<le> last (t # readings ls)"
proof (induction ls arbitrary: t)
  case Nil
  then show ?case by (simp add: lap_time_def)
next
  case (Cons l ls)
  obtain a b where l: "l = (a, b)" by (cases l)
  have "0 \<le> lap_time ls \<and> b + lap_time ls \<le> last (b # readings ls)"
    using Cons.prems l by (intro Cons.IH) simp
  then show ?case using Cons.prems l by (auto simp: lap_time_Cons)
qed

text \<open>Closing removes a descriptor, and nothing else does; only \<^verbatim>\<open>Write\<close> sends replies.\<close>

definition epilogue_law ::
  "'w posix \<Rightarrow> 'w stream \<Rightarrow> ('w \<Rightarrow> 'w) \<Rightarrow> ('w \<Rightarrow> int set) \<Rightarrow> ('w \<Rightarrow> file_reply list) \<Rightarrow> bool" where
  "epilogue_law px st queue_exit fds sent \<longleftrightarrow>
     (\<forall>fd w r w'. px_close px fd w = (r, w') \<longrightarrow> fds w' = fds w - {fd} \<and> sent w' = sent w) \<and>
     (\<forall>w t w'. px_now px w = (t, w') \<longrightarrow> fds w' = fds w \<and> sent w' = sent w) \<and>
     (\<forall>w. fds (queue_exit w) = fds w \<and> sent (queue_exit w) = sent w) \<and>
     (\<forall>rp w r w'. st_write st rp w = (r, w') \<longrightarrow> fds w' = fds w \<and> sent w' = sent w @ [rp])"

lemma close_all_effect:
  assumes "epilogue_law px st queue_exit fds sent"
  shows "fds (close_all px ds w) = fds w - set ds \<and> sent (close_all px ds w) = sent w"
proof (induction ds arbitrary: w)
  case (Cons d ds)
  have "fds (snd (px_close px d w)) = fds w - {d} \<and> sent (snd (px_close px d w)) = sent w"
    using assms unfolding epilogue_law_def by (metis prod.collapse)
  with Cons.IH show ?case by auto
qed simp

lemma uring_epilogue_effect:
  assumes law: "epilogue_law px st queue_exit fds sent"
    and clk: "\<And>v t v'. px_now px v = (t, v') \<Longrightarrow> latest \<le> t"
    and run: "uring_epilogue px st queue_exit ds rows total_start w = (status, w')"
  shows "status = Status_OK \<and> fds w' = fds w - set ds \<and>
     (\<exists>now. latest \<le> now \<and> sent w' = sent w @
        [\<lparr>reply_stats = render_stat (rows @ [(''total time on server is '', now - total_start)])\<rparr>])"
proof -
  let ?v = "close_all px ds (queue_exit w)"
  obtain now v1 where n: "px_now px ?v = (now, v1)" by (metis prod.exhaust)
  let ?rp = "\<lparr>reply_stats = render_stat (rows @ [(''total time on server is '', now - total_start)])\<rparr>"
  obtain b v2 where s: "st_write st ?rp v1 = (b, v2)" by (metis prod.exhaust)
  have q: "fds (queue_exit w) = fds w" "sent (queue_exit w) = sent w"
    using law unfolding epilogue_law_def by blast+
  have "fds v1 = fds ?v" "sent v1 = sent ?v" using law n unfolding epilogue_law_def by blast+
  moreover have "fds v2 = fds v1" "sent v2 = sent v1 @ [?rp]" using law s unfolding epilogue_law_def by blast+
  moreover have "status = Status_OK" "w' = v2" using run n s by (simp_all add: uring_epilogue_def)
  ultimately show ?thesis using close_all_effect [OF law, of ds "queue_exit w"] q clk [OF n] by auto
qed

section \<open>Properties\<close>

text \<open>the end of \<^verbatim>\<open>AppendOneLargeFileAsyncExpr\<close>: after the join it closes every file of its list and no
  other, answers OK with exactly one reply, and when the clock does not run backwards the copy time
  in that report is between 0 and the total time.\<close>

theorem expr_epilogue_report:
  assumes "epilogue_law px st queue_exit fds sent" and "sorted (total_start # readings copies)"
    and "\<And>v t v'. px_now px v = (t, v') \<Longrightarrow> last (total_start # readings copies) \<le> t"
    and "expr_epilogue px st queue_exit ds copies total_start w = (status, w')"
  shows "status = Status_OK \<and> fds w' = fds w - set ds \<and>
     (\<exists>copy total. 0 \<le> copy \<and> copy \<le> total \<and> sent w' = sent w @ [\<lparr>reply_stats =
        render_stat [(''time on copy is '', copy), (''total time on server is '', total)]\<rparr>])"
proof -
  have "0 \<le> lap_time copies" "total_start + lap_time copies \<le> last (total_start # readings copies)"
    using lap_time_bounds [OF assms(2)] by simp_all
  moreover have "status = Status_OK \<and> fds w' = fds w - set ds \<and>
     (\<exists>now. last (total_start # readings copies) \<le> now \<and> sent w' = sent w @ [\<lparr>reply_stats =
        render_stat [(''time on copy is '', lap_time copies), (''total time on server is '', now - total_start)]\<rparr>])"
    using uring_epilogue_effect [OF assms(1,3) assms(4) [unfolded expr_epilogue_def]] by simp
  then obtain now where "last (total_start # readings copies) \<le> now" and "status = Status_OK"
    and "fds w' = fds w - set ds" and "sent w' = sent w @ [\<lparr>reply_stats =
        render_stat [(''time on copy is '', lap_time copies), (''total time on server is '', now - total_start)]\<rparr>]"
    by blast
  ultimately show ?thesis
    by (intro conjI exI [of _ "lap_time copies"] exI [of _ "now - total_start"]) simp_all
qed

text \<open>The world of the witness: the time, the open descriptors and the replies.\<close>

definition end_px :: "(int \<times> int set \<times> file_reply list) posix" where
  "end_px = \<lparr>px_now = \<lambda>(t, f, s). (max 100 t, (t, f, s)), px_open = \<lambda>_ _ w. (3, w), px_memalign = \<lambda>_ _ w. (0, w),
     px_write = \<lambda>_ d w. (int (length d), w), px_close = \<lambda>fd (t, f, s). (0, (t, f - {fd}, s))\<rparr>"

definition end_stream :: "(int \<times> int set \<times> file_reply list) stream" where
  "end_stream = \<lparr>st_read = \<lambda>w. (None, w), st_write = \<lambda>rp (t, f, s). (True, (t, f, s @ [rp]))\<rparr>"

theorem expr_epilogue_report_witness:
  "\<exists>w'. expr_epilogue end_px end_stream (\<lambda>w. w) [4, 5] [(10, 20), (30, 35)] 5 (40, {3, 4, 5}, []) = (Status_OK, w') \<and>
     fst (snd w') = {3} \<and> (\<exists>copy total. 0 \<le> copy \<and> copy \<le> total \<and> snd (snd w') = [\<lparr>reply_stats =
        render_stat [(''time on copy is '', copy), (''total time on server is '', total)]\<rparr>])"
proof -
  have law: "epilogue_law end_px end_stream (\<lambda>w. w) (\<lambda>w. fst (snd w)) (\<lambda>w. snd (snd w))"
    by (auto simp: epilogue_law_def end_px_def end_stream_def)
  obtain st w' where run: "expr_epilogue end_px end_stream (\<lambda>w. w) [4, 5] [(10, 20), (30, 35)] 5 (40, {3, 4, 5}, []) =
      (st, w')" by (metis prod.exhaust)
  have "st = Status_OK \<and> fst (snd w') = fst (snd (40 :: int, {3, 4, 5}, [] :: file_reply list)) - set [4, 5] \<and>
     (\<exists>copy total. 0 \<le> copy \<and> copy \<le> total \<and> snd (snd w') = snd (snd (40 :: int, {3, 4, 5 :: int}, [])) @ [\<lparr>reply_stats =
        render_stat [(''time on copy is '', copy), (''total time on server is '', total)]\<rparr>])"
    by (rule expr_epilogue_report [OF law _ _ run]) (auto simp: end_px_def)
  then show ?thesis using run by (auto simp: insert_Diff_if)
qed

end
