(* ===== verification/File_Concurrent.thy ===== *)
theory File_Concurrent
  imports File_Server
begin

text \<open>
  Several calls on one \<^verbatim>\<open>GRPCFileServerSync\<close> (\<^verbatim>\<open>src/src/file_target.cc\<close>). The parameters \<^verbatim>\<open>buffer_size\<close>,
  \<^verbatim>\<open>N\<close> and \<^verbatim>\<open>fn\<close> are members of the server: the three io_uring handlers and their completion threads (whose
  lambdas capture \<^verbatim>\<open>this\<close>) read them again at every use, while other calls run and while a \<^verbatim>\<open>SetParameters\<close>
  of another client may change them. \<open>Uring_Service\<close> has one call with fixed parameters; here calls of all
  three handlers begin, advance and share the server. The counter \<^verbatim>\<open>dummy\<close> gives each call of
  \<^verbatim>\<open>AppendOneLargeFileAsyncExpr\<close> its files.
\<close>

section \<open>One submission with the parameters of the moment\<close>

text \<open>\<^verbatim>\<open>fds[n++ % fn]\<close>: the array keeps the length it had when the call began.\<close>

definition shared_fd :: "int list \<Rightarrow> int \<Rightarrow> nat \<Rightarrow> int outcome" where
  "shared_fd fds fn n =
     (if int n \<ge> INT_MAX then Inl Signed_overflow
      else bindF (c_rem (int n) fn) (\<lambda>k.
        if 0 \<le> k \<and> k < int (length fds) then Inr (fds ! nat k) else Inl Overread))"

definition shared_submit ::
  "file_server \<Rightarrow> int list \<Rightarrow> bool \<Rightarrow> bool \<Rightarrow> file_request \<Rightarrow> uring_state \<Rightarrow> uring_state" where
  "shared_submit srv fds sqe_ok alloc_ok rq s =
     (if \<not> sqe_ok then crash Terminate s
      else if \<not> alloc_ok then crash Terminate s
      else case memcpy_from (c_str (file_data rq)) (unat (buffer_size srv)) of
        Inl f \<Rightarrow> crash f s
      | Inr buffer \<Rightarrow>
          (case shared_fd fds (fs_fn srv) (u_n s) of
             Inl f \<Rightarrow> crash f s
           | Inr fd \<Rightarrow> read_next (queue_ops [Uwrite fd (u_n s) buffer] s)))"

definition shared_sub ::
  "(bool \<times> bool) set \<Rightarrow> file_server \<Rightarrow> int list \<Rightarrow> file_request \<Rightarrow> uring_state \<Rightarrow> uring_state \<Rightarrow> bool" where
  "shared_sub env srv fds rq s s' \<longleftrightarrow> (\<exists>(sqe_ok, alloc_ok) \<in> env. s' = shared_submit srv fds sqe_ok alloc_ok rq s)"

section \<open>The server and its calls\<close>

text \<open>The handler a call runs, with what it has opened: one file, \<^verbatim>\<open>fds\<close>, or a file per request.\<close>

datatype uring_kind =
    Call_large int
  | is_expr: Call_expr "int list"
  | Call_small nat "nat \<Rightarrow> int"        \<comment> \<open>the entries of its ring, and what \<^verbatim>\<open>open\<close> returns for each request\<close>




fun call_sub ::
  "(bool \<times> bool) set \<Rightarrow> file_server \<Rightarrow> uring_kind \<Rightarrow> file_request \<Rightarrow> uring_state \<Rightarrow> uring_state \<Rightarrow> bool" where
  "call_sub env srv (Call_large fd) = large_sub env (unat (buffer_size srv)) fd"
| "call_sub env srv (Call_expr fds) = shared_sub env srv fds"
| "call_sub env srv (Call_small entries fd_of) = small_sub (snd ` env) (unat (buffer_size srv)) entries fd_of"

text \<open>The bound of the completion thread, \<^verbatim>\<open>i < N\<close> or \<^verbatim>\<open>i < 2*N\<close>; the product may overflow.\<close>

fun call_expected :: "file_server \<Rightarrow> uring_kind \<Rightarrow> int" where
  "call_expected srv (Call_large fd) = fs_N srv"
| "call_expected srv (Call_expr fds) = fs_N srv"
| "call_expected srv (Call_small entries fd_of) = 2 * fs_N srv"





fun call_opened :: "file_server \<Rightarrow> uring_kind \<Rightarrow> bool" where
  "call_opened srv (Call_expr fds) = (length fds = nat (fs_fn srv))"
| "call_opened srv _ = True"






section \<open>Calls under unchanged parameters\<close>













text \<open>The number of a call matters for the counter alone.\<close>

lemma shared_sub_dummy: "shared_sub env (srv\<lparr>dummy := d\<rparr>) fds = shared_sub env srv fds"
proof -
  have "shared_submit (srv\<lparr>dummy := d\<rparr>) fds = shared_submit srv fds"
    by (intro ext) (simp add: shared_submit_def split: sum.split)
  then show ?thesis by (intro ext) (simp add: shared_sub_def)
qed

lemma dummy_irrelevant [simp]:
  "call_sub env (srv\<lparr>dummy := d\<rparr>) kind = call_sub env srv kind"
  "call_expected (srv\<lparr>dummy := d\<rparr>) kind = call_expected srv kind"
  "call_opened (srv\<lparr>dummy := d\<rparr>) kind = call_opened srv kind"
  by (cases kind, simp_all add: shared_sub_dummy)+







section \<open>Parameters that change under a call\<close>





section \<open>Properties\<close>



section \<open>Witnesses\<close>









end
