(* ===== verification/Blocking_Concurrent.thy ===== *)
theory Blocking_Concurrent
  imports Call_Pool Uring_Service "HOL-Library.Multiset"
begin

text \<open>
  Concurrent calls of the blocking handlers of \<^verbatim>\<open>GRPCFileServerSync\<close> (\<^verbatim>\<open>src/src/file_target.cc\<close>), \<^verbatim>\<open>AppendOneLargeFile\<close>
  and \<^verbatim>\<open>AppendManySmallFiles\<close>. The handlers are split at their accesses to what calls share: the parameters,
  which \<^verbatim>\<open>SetParameters\<close> assigns and which a handler reads anew at every use; the four counters, whose
  \<^verbatim>\<open>+=\<close> is a load and a store; and the files. \<open>File_Service\<close> has the same handlers as functions of one
  call; an iteration of either agrees with the steps here (\<open>large_iteration_eq\<close>, \<open>small_iteration_eq\<close>).
\<close>

section \<open>Calls and what they share\<close>

datatype bl_kind = Large_handler | Small_handler

datatype bl_counter = C_open | C_alloc | C_rw | C_total

datatype bl_pc =
    B_first                        \<comment> \<open>the unchecked \<^verbatim>\<open>Read\<close> of \<^verbatim>\<open>AppendOneLargeFile\<close>\<close>
  | B_read | B_open | B_alloc | B_copy | B_write
  | B_check                        \<comment> \<open>\<^verbatim>\<open>... != buffer_size\<close>\<close>
  | B_load bl_counter | B_store bl_counter int
  | B_close | B_reply
  | B_end grpc_status

text \<open>The locals of a handler; \<open>bc_file\<close> is the name under which \<^verbatim>\<open>fd\<close> was opened.\<close>

record bl_call =
  bc_kind :: bl_kind
  bc_pending :: "file_request list"
  bc_rq :: file_request
  bc_file :: string
  bc_fd :: int
  bc_buf :: "byte list"
  bc_err :: int
  bc_replies :: nat
  bc_pc :: bl_pc

text \<open>The calls to the kernel, in the order they are made, each with its result.\<close>

datatype kop =
    Kopen string bool int          \<comment> \<open>name, \<^verbatim>\<open>O_TRUNC\<close>, descriptor\<close>
  | Kwrite string "byte list" int  \<comment> \<open>file of the descriptor, bytes, result\<close>
  | Kclose int int

record bl_shared =
  bs_srv :: file_server
  bs_log :: "(nat \<times> kop) list"    \<comment> \<open>with the call that made it\<close>

definition bl_new :: "bl_kind \<Rightarrow> file_request list \<Rightarrow> bl_call" where
  "bl_new kind rqs = \<lparr>bc_kind = kind, bc_pending = rqs, bc_rq = empty_file_request, bc_file = [], bc_fd = 0, bc_buf = [],
     bc_err = 0, bc_replies = 0, bc_pc = (case kind of Large_handler \<Rightarrow> B_first | Small_handler \<Rightarrow> B_read)\<rparr>"

section \<open>The steps of a call\<close>

fun get_counter :: "bl_counter \<Rightarrow> file_server \<Rightarrow> int" where
  "get_counter C_open srv = ft_open srv"
| "get_counter C_alloc srv = ft_allocation srv"
| "get_counter C_rw srv = ft_rw srv"
| "get_counter C_total srv = ft_total srv"

fun set_counter :: "bl_counter \<Rightarrow> int \<Rightarrow> file_server \<Rightarrow> file_server" where
  "set_counter C_open v srv = srv\<lparr>ft_open := v\<rparr>"
| "set_counter C_alloc v srv = srv\<lparr>ft_allocation := v\<rparr>"
| "set_counter C_rw v srv = srv\<lparr>ft_rw := v\<rparr>"
| "set_counter C_total v srv = srv\<lparr>ft_total := v\<rparr>"

definition log_op :: "nat \<Rightarrow> kop \<Rightarrow> bl_shared \<Rightarrow> bl_shared" where
  "log_op k op sh = sh\<lparr>bs_log := bs_log sh @ [(k, op)]\<rparr>"

definition goto :: "bl_pc \<Rightarrow> bl_call \<Rightarrow> bl_call" where
  "goto pc c = c\<lparr>bc_pc := pc\<rparr>"

text \<open>\<^verbatim>\<open>stream->Read(&request)\<close>, which decides how a loop goes on.\<close>

definition bl_read :: "bl_call \<Rightarrow> bl_call" where
  "bl_read c = (case bc_pending c of
      [] \<Rightarrow> goto (case bc_kind c of Large_handler \<Rightarrow> B_close | Small_handler \<Rightarrow> B_load C_total) c
    | rq # rqs \<Rightarrow> goto (case bc_kind c of Large_handler \<Rightarrow> B_alloc | Small_handler \<Rightarrow> B_open)
        (c\<lparr>bc_rq := rq, bc_pending := rqs\<rparr>))"

definition bl_first :: "bl_call \<Rightarrow> bl_call" where
  "bl_first c = goto B_open (case bc_pending c of [] \<Rightarrow> c | rq # rqs \<Rightarrow> c\<lparr>bc_rq := rq, bc_pending := rqs\<rparr>)"

definition bl_open :: "nat \<Rightarrow> int \<Rightarrow> bl_call \<Rightarrow> bl_shared \<Rightarrow> bl_call \<times> bl_shared" where
  "bl_open k fd c sh =
     (goto (case bc_kind c of Large_handler \<Rightarrow> B_alloc | Small_handler \<Rightarrow> B_load C_open)
        (c\<lparr>bc_fd := fd, bc_file := filename (bc_rq c)\<rparr>),
      log_op k (Kopen (filename (bc_rq c)) (bc_kind c = Large_handler) fd) sh)"

text \<open>\<open>fresh\<close> is the contents of new memory. The copy takes as many bytes as \<^verbatim>\<open>buffer_size\<close> says by then.\<close>

definition bl_alloc :: "(nat \<Rightarrow> byte) \<Rightarrow> int \<Rightarrow> bl_call \<Rightarrow> bl_shared \<Rightarrow> bl_call" where
  "bl_alloc fresh err c sh =
     (if err \<noteq> 0 then goto (B_end (Status_UNKNOWN ''posix_memalign failed'')) c
      else goto B_copy (c\<lparr>bc_buf := map fresh [0..<unat (buffer_size (bs_srv sh))]\<rparr>))"

definition bl_copy :: "bl_call \<Rightarrow> bl_shared \<Rightarrow> bl_call outcome" where
  "bl_copy c sh =
     bindF (memcpy_from (c_str (file_data (bc_rq c))) (unat (buffer_size (bs_srv sh)))) (\<lambda>d.
       if length d > length (bc_buf c) then Inl Heap_overflow
       else Inr (goto (B_load C_alloc) (c\<lparr>bc_buf := d @ drop (length d) (bc_buf c)\<rparr>)))"

text \<open>\<^verbatim>\<open>write\<close> returns -1 or at most what was asked; a descriptor that \<^verbatim>\<open>open\<close> did not give is an error.\<close>

definition write_result :: "int \<Rightarrow> int \<Rightarrow> nat \<Rightarrow> int" where
  "write_result fd e n = (if fd < 0 \<or> e < 0 then -1 else if e \<le> int n then e else int n)"

definition bl_write :: "nat \<Rightarrow> int \<Rightarrow> bl_call \<Rightarrow> bl_shared \<Rightarrow> (bl_call \<times> bl_shared) outcome" where
  "bl_write k e c sh =
     (let n = unat (buffer_size (bs_srv sh)); r = write_result (bc_fd c) e n in
      if n > length (bc_buf c) then Inl Overread
      else Inr (goto (case bc_kind c of Large_handler \<Rightarrow> B_load C_rw | Small_handler \<Rightarrow> B_check) (c\<lparr>bc_err := r\<rparr>),
        log_op k (Kwrite (bc_file c) (take n (bc_buf c)) r) sh))"

definition bl_check :: "bl_call \<Rightarrow> bl_shared \<Rightarrow> bl_call" where
  "bl_check c sh =
     (if (word_of_int (bc_err c) :: u64) \<noteq> buffer_size (bs_srv sh)
      then goto (B_end (Status_UNKNOWN ''write data failed'')) c
      else goto (B_load C_rw) c)"

text \<open>Where a handler goes on after it has updated a counter.\<close>

definition after_counter :: "bl_counter \<Rightarrow> bl_call \<Rightarrow> bl_pc" where
  "after_counter ctr c =
     (case ctr of
        C_open \<Rightarrow> if bc_fd c < 0 then B_end (Status_UNKNOWN ''open file failed'') else B_alloc
      | C_alloc \<Rightarrow> B_write
      | C_rw \<Rightarrow>
          (case bc_kind c of
             Large_handler \<Rightarrow> if to_int32 (bc_err c) < 0 then B_end (Status_UNKNOWN ''write data failed'') else B_reply
           | Small_handler \<Rightarrow> B_close)
      | C_total \<Rightarrow> B_end Status_OK)"

definition bl_close :: "nat \<Rightarrow> int \<Rightarrow> bl_call \<Rightarrow> bl_shared \<Rightarrow> bl_call \<times> bl_shared" where
  "bl_close k r c sh =
     (goto (case bc_kind c of
        Large_handler \<Rightarrow> B_end Status_OK
      | Small_handler \<Rightarrow> if r \<noteq> 0 then B_end (Status_UNKNOWN ''close fd failed'') else B_reply) c,
      log_op k (Kclose (bc_fd c) r) sh)"

text \<open>
  \<open>e\<close> is what the environment answers: a descriptor, an error number, the result of a write or of a
  close, or the time that has passed. A call that has ended is left as it is.
\<close>

definition bl_step :: "(nat \<Rightarrow> byte) \<Rightarrow> nat \<Rightarrow> int \<Rightarrow> bl_call \<Rightarrow> bl_shared \<Rightarrow> (bl_call \<times> bl_shared) outcome" where
  "bl_step fresh k e c sh =
     (case bc_pc c of
        B_first \<Rightarrow> Inr (bl_first c, sh)
      | B_read \<Rightarrow> Inr (bl_read c, sh)
      | B_open \<Rightarrow> Inr (bl_open k e c sh)
      | B_alloc \<Rightarrow> Inr (bl_alloc fresh e c sh, sh)
      | B_copy \<Rightarrow> bindF (bl_copy c sh) (\<lambda>c'. Inr (c', sh))
      | B_write \<Rightarrow> bl_write k e c sh
      | B_check \<Rightarrow> Inr (bl_check c sh, sh)
      | B_load ctr \<Rightarrow> Inr (goto (B_store ctr (get_counter ctr (bs_srv sh) + e)) c, sh)
      | B_store ctr v \<Rightarrow> Inr (goto (after_counter ctr c) c, sh\<lparr>bs_srv := set_counter ctr v (bs_srv sh)\<rparr>)
      | B_close \<Rightarrow> Inr (bl_close k e c sh)
      | B_reply \<Rightarrow> Inr (goto B_read (c\<lparr>bc_replies := Suc (bc_replies c)\<rparr>), sh)
      | B_end st \<Rightarrow> Inr (c, sh))"

text \<open>The other calls of the service, each at once.\<close>

definition apply_set :: "parameters \<Rightarrow> bl_shared \<Rightarrow> bl_shared" where
  "apply_set p sh = sh\<lparr>bs_srv := snd (SetParameters p (bs_srv sh))\<rparr>"

definition apply_reset :: "bl_shared \<Rightarrow> bl_shared" where
  "apply_reset sh = sh\<lparr>bs_srv := snd (file_ResetStat (bs_srv sh))\<rparr>"

text \<open>Of these, the ones that leave the size of the buffers as it is.\<close>

definition calm :: "u64 \<Rightarrow> (bl_shared \<Rightarrow> bl_shared) set" where
  "calm b = insert apply_reset {apply_set p | p. word_of_int (p_buffer_size p) = b}"

section \<open>What a call has written\<close>

definition own :: "nat \<Rightarrow> (nat \<times> kop) list \<Rightarrow> kop list" where
  "own k log = map snd (filter (\<lambda>x. fst x = k) log)"

fun writes :: "kop list \<Rightarrow> (string \<times> byte list \<times> int) list" where
  "writes [] = []"
| "writes (Kwrite f d r # ops) = (f, d, r) # writes ops"
| "writes (op # ops) = writes ops"

lemma own_simps [simp]:
  "own k [] = []" "own k (log @ log') = own k log @ own k log'"
  "own k [(j, op)] = (if j = k then [op] else [])"
  by (simp_all add: own_def)

lemma writes_append [simp]: "writes (xs @ ys) = writes xs @ writes ys"
  by (induction xs rule: writes.induct) simp_all

text \<open>The requests a handler serves, the file each goes to, and a write that the handler accepts.\<close>

fun served :: "bl_kind \<Rightarrow> file_request list \<Rightarrow> file_request list" where
  "served Large_handler rqs = requests_of rqs"
| "served Small_handler rqs = rqs"

fun target :: "bl_kind \<Rightarrow> file_request list \<Rightarrow> file_request \<Rightarrow> string" where
  "target Large_handler rqs rq = filename (hd (requests_of rqs))"
| "target Small_handler rqs rq = filename rq"

fun accepted :: "bl_kind \<Rightarrow> nat \<Rightarrow> int \<Rightarrow> bool" where
  "accepted Large_handler bs r = (0 \<le> r \<and> r \<le> int bs)"
| "accepted Small_handler bs r = (r = int bs)"

definition wrote :: "bl_kind \<Rightarrow> file_request list \<Rightarrow> nat \<Rightarrow> file_request \<Rightarrow> string \<times> byte list \<times> int \<Rightarrow> bool" where
  "wrote kind rqs bs rq x \<longleftrightarrow> (\<exists>r. x = (target kind rqs rq, copied bs rq, r) \<and> accepted kind bs r)"

section \<open>Where a call is, while the parameters stay\<close>

text \<open>\<open>W\<close> are the writes of the call so far; the last one may still be unchecked.\<close>

definition served_first :: "bl_call \<Rightarrow> file_request list \<Rightarrow> nat \<Rightarrow> nat \<Rightarrow> (string \<times> byte list \<times> int) list \<Rightarrow> bool" where
  "served_first c rqs bs n W \<longleftrightarrow> list_all2 (wrote (bc_kind c) rqs bs) (take n (served (bc_kind c) rqs)) W"

definition current :: "bl_call \<Rightarrow> file_request list \<Rightarrow> bool" where
  "current c rqs \<longleftrightarrow> bc_replies c < length (served (bc_kind c) rqs) \<and>
     bc_rq c = served (bc_kind c) rqs ! bc_replies c \<and> bc_pending c = drop (Suc (bc_replies c)) (served (bc_kind c) rqs)"

definition named :: "bl_call \<Rightarrow> file_request list \<Rightarrow> bool" where
  "named c rqs \<longleftrightarrow> bc_file c = target (bc_kind c) rqs (bc_rq c)"

definition in_doubt :: "bl_call \<Rightarrow> file_request list \<Rightarrow> nat \<Rightarrow> (string \<times> byte list \<times> int) list \<Rightarrow> bool" where
  "in_doubt c rqs bs W \<longleftrightarrow> (\<exists>W'. W = W' @ [(bc_file c, copied bs (bc_rq c), bc_err c)] \<and>
     served_first c rqs bs (bc_replies c) W' \<and> -1 \<le> bc_err c \<and> bc_err c \<le> int bs)"

definition phase :: "bl_call \<Rightarrow> file_request list \<Rightarrow> nat \<Rightarrow> (string \<times> byte list \<times> int) list \<Rightarrow> bool" where
  "phase c rqs bs W =
     (let n = bc_replies c; before = served_first c rqs bs n W; after = served_first c rqs bs (Suc n) W;
          total_n = length (served (bc_kind c) rqs); large = (bc_kind c = Large_handler); here = current c rqs \<and> named c rqs in
      case bc_pc c of
        B_first \<Rightarrow> large \<and> c = bl_new Large_handler rqs \<and> W = []
      | B_read \<Rightarrow> before \<and> n \<le> total_n \<and> bc_pending c = drop n (served (bc_kind c) rqs) \<and> (large \<longrightarrow> named c rqs)
      | B_open \<Rightarrow> before \<and> current c rqs \<and> (large \<longrightarrow> n = 0)
      | B_alloc \<Rightarrow> before \<and> here
      | B_copy \<Rightarrow> before \<and> here \<and> length (bc_buf c) = bs
      | B_write \<Rightarrow> before \<and> here \<and> bc_buf c = copied bs (bc_rq c)
      | B_check \<Rightarrow> \<not> large \<and> here \<and> in_doubt c rqs bs W
      | B_close \<Rightarrow> if large then before \<and> n = total_n else here \<and> after
      | B_reply \<Rightarrow> here \<and> after
      | B_end st \<Rightarrow> st = Status_OK \<longrightarrow> before \<and> n = total_n
      | B_load ctr \<Rightarrow>
          (case ctr of C_open \<Rightarrow> before \<and> here
           | C_alloc \<Rightarrow> before \<and> here \<and> bc_buf c = copied bs (bc_rq c)
           | C_rw \<Rightarrow> here \<and> (if large then in_doubt c rqs bs W else after)
           | C_total \<Rightarrow> before \<and> n = total_n)
      | B_store ctr v \<Rightarrow>
          (case ctr of C_open \<Rightarrow> before \<and> here
           | C_alloc \<Rightarrow> before \<and> here \<and> bc_buf c = copied bs (bc_rq c)
           | C_rw \<Rightarrow> here \<and> (if large then in_doubt c rqs bs W else after)
           | C_total \<Rightarrow> before \<and> n = total_n))"

lemma phase_new: "phase (bl_new kind rqs) rqs bs []"
  by (cases kind) (simp_all add: phase_def bl_new_def served_first_def Let_def)

lemma served_first_Suc:
  assumes "current c rqs" and "named c rqs" and "served_first c rqs bs (bc_replies c) W" and "accepted (bc_kind c) bs r"
  shows "served_first c rqs bs (Suc (bc_replies c)) (W @ [(bc_file c, copied bs (bc_rq c), r)])"
  using assms
  by (auto simp: served_first_def current_def named_def take_Suc_conv_app_nth wrote_def intro!: list_all2_appendI)

lemma small_result:
  assumes "-1 \<le> r" and "r \<le> int (unat (b :: u64))" and "unat b \<le> RW_MAX"
  shows "word_of_int r = b \<longleftrightarrow> r = int (unat b)"
proof
  assume eq: "word_of_int r = b"
  show "r = int (unat b)"
  proof (cases "r = -1")
    case True
    then have "unat b = 2 ^ 64 - 1" using eq by (auto simp: unsigned_minus_1_eq_mask mask_eq_exp_minus_1)
    then show ?thesis using assms(3) by simp
  next
    case False
    then have "0 \<le> r" using assms(1) by simp
    have "r \<le> int RW_MAX" using assms(2,3) by linarith
    then have "r < 2 ^ 64" by simp
    note \<open>0 \<le> r\<close> this
    then have "uint (word_of_int r :: u64) = r" by (rule uint64_nonneg)
    then show ?thesis using eq by simp
  qed
qed simp

lemma large_result:
  assumes "-1 \<le> r" and "r \<le> int n" and "n \<le> RW_MAX"
  shows "to_int32 r < 0 \<longleftrightarrow> r < 0"
proof -
  have "is_int r" using assms by (simp add: is_int_def)
  then show ?thesis by simp
qed

lemma write_result_bounds: "-1 \<le> write_result fd e n" "write_result fd e n \<le> int n"
  by (simp_all add: write_result_def)

lemma copied_length: "copyable bs rq \<Longrightarrow> length (copied bs rq) = bs"
  by (simp add: copyable_def copied_def c_str_def)

text \<open>The parts of a step: each leads from its phase to the next one.\<close>

lemmas phase_defs = phase_def goto_def Let_def

lemma drop_eq_Cons:
  assumes "drop n xs = y # ys"
  shows "n < length xs \<and> y = xs ! n \<and> ys = drop (Suc n) xs"
proof -
  have "n < length xs" using assms by (metis drop_all linorder_not_less list.simps(3))
  with assms Cons_nth_drop_Suc [OF this] show ?thesis by simp
qed

lemma bl_read_phase:
  assumes "phase c rqs bs W" and "bc_pc c = B_read"
  shows "phase (bl_read c) rqs bs W"
proof (cases "bc_pending c")
  case Nil
  with assms show ?thesis
    by (cases "bc_kind c") (auto simp: bl_read_def phase_defs served_first_def)
next
  case (Cons rq rest)
  then have "drop (bc_replies c) (served (bc_kind c) rqs) = rq # rest" using assms by (simp add: phase_defs)
  note cur = drop_eq_Cons [OF this]
  have "bl_read c = c\<lparr>bc_rq := rq, bc_pending := rest, bc_pc := (case bc_kind c of Large_handler \<Rightarrow> B_alloc | Small_handler \<Rightarrow> B_open)\<rparr>"
    using Cons by (simp add: bl_read_def goto_def)
  with cur assms show ?thesis
    by (cases "bc_kind c") (simp_all add: phase_defs served_first_def current_def named_def)
qed

lemma bl_first_phase:
  assumes "phase c rqs bs W" and "bc_pc c = B_first"
  shows "phase (bl_first c) rqs bs W"
proof -
  have "c = bl_new Large_handler rqs" "W = []" using assms by (simp_all add: phase_defs)
  then show ?thesis
    by (cases rqs) (simp_all add: bl_first_def bl_new_def phase_defs served_first_def current_def requests_of_def)
qed

lemma bl_open_phase:
  assumes "phase c rqs bs W" and "bc_pc c = B_open"
  shows "phase (fst (bl_open k fd c sh)) rqs bs W"
proof (cases "bc_kind c")
  case Large_handler
  then have "bc_replies c = 0" "bc_rq c = hd (requests_of rqs)"
    using assms by (auto simp: phase_defs current_def requests_of_def hd_conv_nth)
  with Large_handler assms show ?thesis
    by (auto simp: bl_open_def phase_defs served_first_def current_def named_def)
next
  case Small_handler
  with assms show ?thesis by (auto simp: bl_open_def phase_defs served_first_def current_def named_def)
qed

lemma bl_copy_phase:
  assumes "phase c rqs bs W" and "bc_pc c = B_copy" and "copyable bs (bc_rq c)" and "unat (buffer_size (bs_srv sh)) = bs"
  shows "\<exists>c'. bl_copy c sh = Inr c' \<and> bc_kind c' = bc_kind c \<and> phase c' rqs bs W"
proof -
  have "length (copied bs (bc_rq c)) = length (bc_buf c)"
    using assms copied_length by (simp add: phase_defs)
  then show ?thesis
    using assms by (auto simp: bl_copy_def memcpy_copied phase_defs served_first_def current_def named_def)
qed

lemma bl_write_phase:
  assumes "phase c rqs bs W" and "bc_pc c = B_write" and "copyable bs (bc_rq c)" and "unat (buffer_size (bs_srv sh)) = bs"
  shows "\<exists>c' r. bl_write k e c sh = Inr (c', log_op k (Kwrite (bc_file c) (copied bs (bc_rq c)) r) sh) \<and>
     bc_kind c' = bc_kind c \<and> phase c' rqs bs (W @ [(bc_file c, copied bs (bc_rq c), r)])"
proof -
  have "bc_buf c = copied bs (bc_rq c)" using assms by (simp add: phase_defs)
  then show ?thesis
    using assms copied_length [OF assms(3)] write_result_bounds
    by (cases "bc_kind c") (auto simp: bl_write_def phase_defs served_first_def current_def named_def in_doubt_def)
qed

lemma in_doubt_accepted:
  assumes "in_doubt c rqs bs W" and "current c rqs" and "named c rqs" and "accepted (bc_kind c) bs (bc_err c)"
  shows "served_first c rqs bs (Suc (bc_replies c)) W"
  using assms served_first_Suc by (auto simp: in_doubt_def)

lemma bl_check_phase:
  assumes "phase c rqs bs W" and "bc_pc c = B_check" and "bs = unat (buffer_size (bs_srv sh))" and "bs \<le> RW_MAX"
  shows "phase (bl_check c sh) rqs bs W"
proof -
  have k: "bc_kind c = Small_handler" and d: "in_doubt c rqs bs W" "current c rqs" "named c rqs"
    using assms(1,2) by (cases "bc_kind c"; simp add: phase_defs)+
  have "-1 \<le> bc_err c" "bc_err c \<le> int bs" using d(1) by (auto simp: in_doubt_def)
  then have "word_of_int (bc_err c) = buffer_size (bs_srv sh) \<longleftrightarrow> accepted (bc_kind c) bs (bc_err c)"
    using small_result [of "bc_err c" "buffer_size (bs_srv sh)"] assms(3,4) k by simp
  with in_doubt_accepted [OF d] k d assms show ?thesis
    by (auto simp: bl_check_def phase_defs served_first_def current_def named_def)
qed

lemma after_counter_phase:
  assumes "phase c rqs bs W" and "bc_pc c = B_store ctr v" and "bs \<le> RW_MAX"
  shows "phase (goto (after_counter ctr c) c) rqs bs W"
proof (cases "ctr = C_rw \<and> bc_kind c = Large_handler")
  case True
  then have d: "in_doubt c rqs bs W" "current c rqs" "named c rqs" using assms(1,2) by (simp_all add: phase_defs)
  then have b: "-1 \<le> bc_err c" "bc_err c \<le> int bs" by (auto simp: in_doubt_def)
  have "\<not> to_int32 (bc_err c) < 0 \<Longrightarrow> accepted (bc_kind c) bs (bc_err c)"
    using large_result [OF b assms(3)] b True by simp
  with in_doubt_accepted [OF d] d True assms show ?thesis
    by (auto simp: after_counter_def phase_defs served_first_def current_def named_def)
next
  case False
  with assms show ?thesis
    by (cases "bc_kind c"; cases ctr)
      (auto simp: after_counter_def phase_defs served_first_def current_def named_def)
qed

section \<open>Calls side by side\<close>

definition plain :: "bl_kind \<Rightarrow> kop \<Rightarrow> bool" where
  "plain kind op \<longleftrightarrow> (\<forall>f fd. op = Kopen f True fd \<longrightarrow> kind = Large_handler)"

text \<open>A step touches its own call, a counter, and the end of the log.\<close>

lemma bl_step_frame:
  assumes "bl_step fresh k e c sh = Inr (c', sh')"
  shows "bc_kind c' = bc_kind c" and "buffer_size (bs_srv sh') = buffer_size (bs_srv sh)"
    and "\<exists>ops. bs_log sh' = bs_log sh @ map (Pair k) ops \<and> (\<forall>op \<in> set ops. plain (bc_kind c) op)"
proof -
  have store: "buffer_size (set_counter ctr v srv) = buffer_size srv" for ctr v srv by (cases ctr) simp_all
  note defs = bl_step_def bl_first_def bl_read_def bl_open_def bl_alloc_def bl_copy_def bl_write_def bl_check_def
    bl_close_def goto_def log_op_def Let_def bindF_eq_Inr store
  show "bc_kind c' = bc_kind c" and "buffer_size (bs_srv sh') = buffer_size (bs_srv sh)"
    using assms by (cases "bc_pc c"; auto simp: defs split: list.splits if_splits)+
  have "bs_log sh' = bs_log sh \<or> (\<exists>op. bs_log sh' = bs_log sh @ [(k, op)] \<and> plain (bc_kind c) op)"
    using assms by (cases "bc_pc c"; auto simp: defs plain_def split: list.splits if_splits)
  then show "\<exists>ops. bs_log sh' = bs_log sh @ map (Pair k) ops \<and> (\<forall>op \<in> set ops. plain (bc_kind c) op)"
  proof
    assume "\<exists>op. bs_log sh' = bs_log sh @ [(k, op)] \<and> plain (bc_kind c) op"
    then obtain op where "bs_log sh' = bs_log sh @ [(k, op)]" "plain (bc_kind c) op" by blast
    then show ?thesis by (intro exI [of _ "[op]"]) simp
  qed (intro exI [of _ "[]"], simp)
qed

lemma bl_step_phase:
  assumes ph: "phase c rqs bs (writes (own k (bs_log sh)))" and b: "unat (buffer_size (bs_srv sh)) = bs" "bs \<le> RW_MAX"
    and rqs: "\<forall>rq \<in> set (served (bc_kind c) rqs). copyable bs rq"
  shows "\<exists>c' sh'. bl_step fresh k e c sh = Inr (c', sh') \<and> phase c' rqs bs (writes (own k (bs_log sh')))"
proof -
  have cp: "copyable bs (bc_rq c)" if "current c rqs" using that rqs by (auto simp: current_def)
  show ?thesis
  proof (cases "bc_pc c")
    case B_copy
    then have "current c rqs" using ph by (simp add: phase_defs)
    from bl_copy_phase [OF ph B_copy cp [OF this] b(1)] B_copy show ?thesis by (auto simp: bl_step_def)
  next
    case B_write
    then have "current c rqs" using ph by (simp add: phase_defs)
    from bl_write_phase [OF ph B_write cp [OF this] b(1), of k e] B_write show ?thesis
      by (auto simp: bl_step_def log_op_def)
  next
    case B_open
    then show ?thesis
      using bl_open_phase [OF ph B_open, of k e sh] by (simp add: bl_step_def bl_open_def log_op_def)
  next
    case (B_store ctr v)
    then show ?thesis using after_counter_phase [OF ph B_store b(2)] by (simp add: bl_step_def)
  next
    case B_check
    then show ?thesis using bl_check_phase [OF ph B_check b(1) [symmetric] b(2)] by (simp add: bl_step_def)
  next
    case B_close
    then show ?thesis using ph
      by (cases "bc_kind c")
        (auto simp: bl_step_def bl_close_def log_op_def phase_defs served_first_def current_def named_def)
  next
    case B_first
    then show ?thesis using bl_first_phase [OF ph] by (simp add: bl_step_def)
  next
    case B_read
    then show ?thesis using bl_read_phase [OF ph] by (simp add: bl_step_def)
  qed (use ph b in
      \<open>auto simp: bl_step_def bl_alloc_def phase_defs served_first_def current_def named_def in_doubt_def split: bl_counter.splits\<close>)
qed

text \<open>\<open>jobs\<close> are the handlers and streams of the calls, \<open>b\<close> is the size of a buffer.\<close>

definition log_wf :: "(bl_kind \<times> file_request list) list \<Rightarrow> (nat \<times> kop) list \<Rightarrow> bool" where
  "log_wf jobs log \<longleftrightarrow> (\<forall>x \<in> set log. fst x < length jobs \<and> plain (fst (jobs ! fst x)) (snd x))"

lemma log_wf_append:
  "log_wf jobs log \<Longrightarrow> k < length jobs \<Longrightarrow> \<forall>op \<in> set ops. plain (fst (jobs ! k)) op \<Longrightarrow> log_wf jobs (log @ map (Pair k) ops)"
  by (auto simp: log_wf_def)

definition bl_good :: "(bl_kind \<times> file_request list) list \<Rightarrow> u64 \<Rightarrow> nat \<Rightarrow> bl_call \<Rightarrow> bl_shared \<Rightarrow> bool" where
  "bl_good jobs b k c sh \<longleftrightarrow> k < length jobs \<and> bc_kind c = fst (jobs ! k) \<and> buffer_size (bs_srv sh) = b \<and> unat b \<le> RW_MAX \<and>
     (\<forall>rq \<in> set (served (bc_kind c) (snd (jobs ! k))). copyable (unat b) rq) \<and>
     log_wf jobs (bs_log sh) \<and> phase c (snd (jobs ! k)) (unat b) (writes (own k (bs_log sh)))"

interpretation blocking: call_pool "bl_step fresh" "bl_good jobs b" "calm b" for fresh jobs b
proof
  fix k c sh e
  assume g: "bl_good jobs b k c sh"
  then obtain c' sh' where st: "bl_step fresh k e c sh = Inr (c', sh')" and
    ph: "phase c' (snd (jobs ! k)) (unat b) (writes (own k (bs_log sh')))"
    using bl_step_phase [of c "snd (jobs ! k)" "unat b" k sh fresh e] by (auto simp: bl_good_def)
  then have "bl_good jobs b k c' sh'" using g bl_step_frame [OF st] log_wf_append by (fastforce simp: bl_good_def)
  with st show "\<exists>c' sh'. bl_step fresh k e c sh = Inr (c', sh') \<and> bl_good jobs b k c' sh'" by blast
next
  fix k c sh j d e c' sh'
  assume g: "bl_good jobs b k c sh" "bl_good jobs b j d sh" "j \<noteq> k" and st: "bl_step fresh k e c sh = Inr (c', sh')"
  from bl_step_frame(3) [OF st] obtain ops where
    log: "bs_log sh' = bs_log sh @ map (Pair k) ops" "\<forall>op \<in> set ops. plain (bc_kind c) op" by blast
  have "own j (map (Pair k) ops) = []" using g(3) by (simp add: own_def filter_map comp_def)
  then show "bl_good jobs b j d sh'" using g log bl_step_frame(2) [OF st] log_wf_append [of jobs "bs_log sh" k ops]
    by (simp add: bl_good_def)
qed (auto simp: calm_def bl_good_def apply_reset_def apply_set_def file_ResetStat_def SetParameters_def)

text \<open>The steps that a call may still make: at most fourteen for a request.\<close>

fun rank :: "bl_kind \<Rightarrow> bl_pc \<Rightarrow> nat" where
  "rank kind (B_end st) = 0"
| "rank kind (B_store C_total v) = 1"
| "rank kind (B_load C_total) = 2"
| "rank kind B_read = 3"
| "rank kind B_reply = 4"
| "rank kind B_close = (case kind of Large_handler \<Rightarrow> 1 | Small_handler \<Rightarrow> 5)"
| "rank kind (B_store C_rw v) = 6"
| "rank kind (B_load C_rw) = 7"
| "rank kind B_check = 8"
| "rank kind B_write = 9"
| "rank kind (B_store C_alloc v) = 10"
| "rank kind (B_load C_alloc) = 11"
| "rank kind B_copy = 12"
| "rank kind B_alloc = 13"
| "rank kind (B_store C_open v) = 14"
| "rank kind (B_load C_open) = 15"
| "rank kind B_open = 16"
| "rank kind B_first = 17"

definition steps_left :: "bl_call \<Rightarrow> nat" where
  "steps_left c = (case bc_pc c of B_end st \<Rightarrow> 0 | pc \<Rightarrow> 14 * length (bc_pending c) + rank (bc_kind c) pc)"

lemma rank_load: "rank kind (B_load ctr) = Suc (rank kind (B_store ctr 0))" "rank kind (B_store ctr v) = rank kind (B_store ctr 0)"
  by (cases ctr; simp)+

lemma steps_left_0:
  assumes "steps_left c = 0"
  shows "\<exists>st. bc_pc c = B_end st"
proof -
  have "rank kind pc = 0 \<Longrightarrow> \<exists>st. pc = B_end st" for kind pc
    by (cases "(kind, pc)" rule: rank.cases) (auto split: bl_kind.splits)
  then show ?thesis using assms by (auto simp: steps_left_def split: bl_pc.splits bl_kind.splits)
qed

interpretation blocking_end: ending_calls "bl_step fresh" steps_left for fresh
proof
  fix k e c sh c' sh'
  assume st: "bl_step fresh k e c sh = Inr (c', sh')"
  note defs = bl_step_def bl_first_def bl_read_def bl_open_def bl_alloc_def bl_copy_def bl_write_def bl_check_def
    bl_close_def after_counter_def goto_def log_op_def Let_def bindF_eq_Inr steps_left_def
  show "steps_left c' \<le> steps_left c - 1"
    using st
    by (cases "bc_pc c"; cases "bc_kind c")
      (auto simp: defs rank_load(1) rank_load(2) [of _ _ "_ + _"] split: list.splits if_splits bl_counter.splits)
qed

section \<open>A server and its calls from the start\<close>

definition new_calls :: "(bl_kind \<times> file_request list) list \<Rightarrow> bl_call list" where
  "new_calls jobs = map (\<lambda>(kind, rqs). bl_new kind rqs) jobs"

definition new_shared :: "file_server \<Rightarrow> bl_shared" where
  "new_shared srv = \<lparr>bs_srv = srv, bs_log = []\<rparr>"

definition wf_jobs :: "nat \<Rightarrow> (bl_kind \<times> file_request list) list \<Rightarrow> bool" where
  "wf_jobs bs jobs \<longleftrightarrow> bs \<le> RW_MAX \<and> (\<forall>(kind, rqs) \<in> set jobs. \<forall>rq \<in> set (served kind rqs). copyable bs rq)"

lemma new_calls_nth: "k < length jobs \<Longrightarrow> new_calls jobs ! k = bl_new (fst (jobs ! k)) (snd (jobs ! k))"
  by (simp add: new_calls_def split_beta)

lemma new_calls_length [simp]: "length (new_calls jobs) = length jobs"
  by (simp add: new_calls_def)

lemma bl_new_kind [simp]: "bc_kind (bl_new kind rqs) = kind"
  by (simp add: bl_new_def)

lemma new_calls_good:
  assumes "wf_jobs (unat (buffer_size srv)) jobs"
  shows "blocking.all_good jobs (buffer_size srv) (new_calls jobs) (new_shared srv)"
proof -
  have "bl_good jobs (buffer_size srv) k (bl_new (fst (jobs ! k)) (snd (jobs ! k))) (new_shared srv)" if "k < length jobs" for k
    using assms that nth_mem [OF that] by (fastforce simp: bl_good_def wf_jobs_def new_shared_def log_wf_def phase_new)
  then show ?thesis by (simp add: blocking.all_good_def new_calls_nth)
qed

lemma blocking_run:
  assumes "wf_jobs (unat (buffer_size srv)) jobs" and "only (calm (buffer_size srv)) evs"
  shows "\<exists>cs sh. pool_run (bl_step fresh) evs (new_calls jobs, new_shared srv) = Inr (cs, sh) \<and> length cs = length jobs \<and>
     (\<forall>k < length jobs. bl_good jobs (buffer_size srv) k (cs ! k) sh)"
proof -
  from blocking.run_good [OF new_calls_good [OF assms(1)] assms(2), of fresh] obtain cs sh where
    "pool_run (bl_step fresh) evs (new_calls jobs, new_shared srv) = Inr (cs, sh)"
    "blocking.all_good jobs (buffer_size srv) cs sh" "length cs = length jobs" by auto
  then show ?thesis by (auto simp: blocking.all_good_def)
qed

lemma good_ended:
  assumes "bl_good jobs b k c sh" and "bc_pc c = B_end Status_OK"
  shows "bc_replies c = length (served (fst (jobs ! k)) (snd (jobs ! k)))"
    and "list_all2 (wrote (fst (jobs ! k)) (snd (jobs ! k)) (unat b)) (served (fst (jobs ! k)) (snd (jobs ! k)))
      (writes (own k (bs_log sh)))"
  using assms by (auto simp: bl_good_def phase_defs served_first_def)

lemma steps_left_new: "steps_left (bl_new kind rqs) \<le> 14 * length rqs + 17"
  by (cases kind) (simp_all add: steps_left_def bl_new_def)

section \<open>The contents of the files\<close>

text \<open>What the kernel makes of the calls: \<^verbatim>\<open>O_TRUNC\<close> empties a file, a write appends what it reports.\<close>

fun kcontents :: "kop list \<Rightarrow> (string \<Rightarrow> byte list) \<Rightarrow> string \<Rightarrow> byte list" where
  "kcontents [] m = m"
| "kcontents (Kopen f trunc fd # ops) m = kcontents ops (if trunc \<and> 0 \<le> fd then m(f := []) else m)"
| "kcontents (Kwrite f d r # ops) m = kcontents ops (if 0 \<le> r then m(f := m f @ take (nat r) d) else m)"
| "kcontents (Kclose fd r # ops) m = kcontents ops m"

lemma kcontents_appends:
  assumes "\<forall>op \<in> set ops. plain Small_handler op"
  shows "kcontents ops m f = m f @ concat (map (\<lambda>(_, d, r). take (nat r) d) (filter (\<lambda>(g, d, r). g = f \<and> 0 \<le> r) (writes ops)))"
  using assms
proof (induction ops m rule: kcontents.induct)
  case (2 g trunc fd ops m)
  then show ?case by (cases trunc) (auto simp: plain_def)
qed auto

text \<open>The writes of a log are those of its calls.\<close>

lemma mset_writes_own:
  assumes "\<forall>x \<in> set log. fst x < n"
  shows "mset (writes (map snd log)) = (\<Sum>k<n. mset (writes (own k log)))"
  using assms
proof (induction log rule: rev_induct)
  case (snoc x log)
  obtain j op where x: "x = (j, op)" by (cases x)
  have "(\<Sum>k<n. mset (writes (if j = k then [op] else []))) = (\<Sum>k<n. if k = j then mset (writes [op]) else {#})"
    by (intro sum.cong) auto
  also have "\<dots> = mset (writes [op])" using snoc.prems x by simp
  finally show ?case using snoc x by (simp add: sum.distrib)
qed simp

lemma mset_concat_nth: "(\<Sum>k<length xss. mset (map f (xss ! k))) = mset (map f (concat xss))"
  by (induction xss rule: rev_induct) (simp_all add: nth_append)

lemma wrote_small:
  assumes "list_all2 (wrote Small_handler rqs bs) rs W"
  shows "W = map (\<lambda>rq. (filename rq, copied bs rq, int bs)) rs"
  using assms by (induction rule: list_all2_induct) (auto simp: wrote_def)

lemma no_calls_log: "pool_run (bl_step fresh) evs ([], sh) = Inr (cs, sh') \<Longrightarrow> only (calm b) evs \<Longrightarrow> bs_log sh' = bs_log sh"
proof (induction evs arbitrary: sh)
  case (Cons ev evs)
  then show ?case by (cases ev) (auto simp: calm_def apply_reset_def apply_set_def)
qed simp

section \<open>The steps and the handlers of one call\<close>















lemma small_appends:
  assumes wf: "wf_jobs (unat (buffer_size srv)) (map (Pair Small_handler) streams)" and calm_evs: "only (calm (buffer_size srv)) evs"
    and run: "pool_run (bl_step fresh) evs (new_calls (map (Pair Small_handler) streams), new_shared srv) = Inr (cs, sh)"
    and ok: "\<forall>c \<in> set cs. bc_pc c = B_end Status_OK"
  shows "\<exists>parts. kcontents (map snd (bs_log sh)) m f = m f @ concat parts \<and>
     mset parts = mset (map (copied (unat (buffer_size srv))) (filter (\<lambda>rq. filename rq = f) (concat streams)))"
proof -
  let ?jobs = "map (Pair Small_handler) streams" and ?bs = "unat (buffer_size srv)"
  let ?w = "\<lambda>rq. (filename rq, copied ?bs rq, int ?bs)"
  let ?W = "writes (map snd (bs_log sh))"
  have g: "length cs = length streams" "\<forall>k < length streams. bl_good ?jobs (buffer_size srv) k (cs ! k) sh"
    using blocking_run [OF wf calm_evs, of fresh] run by auto
  have own: "writes (own k (bs_log sh)) = map ?w (streams ! k)" if "k < length streams" for k
  proof (rule wrote_small)
    show "list_all2 (wrote Small_handler (streams ! k) ?bs) (streams ! k) (writes (own k (bs_log sh)))"
      using good_ended(2) [of ?jobs "buffer_size srv" k "cs ! k" sh] g that ok by simp
  qed
  show ?thesis
  proof (cases "streams = []")
    case True
    then have "bs_log sh = []" using no_calls_log [OF _ calm_evs] run by (auto simp: new_calls_def new_shared_def)
    then show ?thesis using True by simp
  next
    case False
    then have "log_wf ?jobs (bs_log sh)" using g(2) by (auto simp: bl_good_def)
    then have lt: "\<forall>x \<in> set (bs_log sh). fst x < length streams" and pl: "\<forall>op \<in> set (map snd (bs_log sh)). plain Small_handler op"
      by (auto simp: log_wf_def)
    have "mset ?W = (\<Sum>k<length streams. mset (map ?w (streams ! k)))"
      unfolding mset_writes_own [OF lt] using own by (intro sum.cong) auto
    then have W: "mset ?W = mset (map ?w (concat streams))" by (simp only: mset_concat_nth)
    have cut: "take ?bs (copied ?bs rq) = copied ?bs rq" for rq by (simp add: copied_def)
    let ?keep = "\<lambda>(g, d, r). g = f \<and> 0 \<le> (r :: int)" and ?cut = "\<lambda>(_, d, r). take (nat r) d"
    have "mset (map ?cut (filter ?keep ?W)) = image_mset ?cut (filter_mset ?keep (mset (map ?w (concat streams))))"
      by (simp only: mset_map mset_filter W)
    also have "\<dots> = mset (map (copied ?bs) (filter (\<lambda>rq. filename rq = f) (concat streams)))"
      by (simp only: mset_map [symmetric] mset_filter [symmetric] filter_map comp_def case_prod_conv)
        (simp add: comp_def cut)
    finally show ?thesis using kcontents_appends [OF pl, of m f] by blast
  qed
qed

section \<open>Properties\<close>



text \<open>C25: the blocking handlers return: however their steps are interleaved, calls that are scheduled often
  enough (fourteen times per request and seventeen times more) have all returned a status.\<close>

theorem blocking_calls_return:
  assumes "wf_jobs (unat (buffer_size srv)) jobs" and "only (calm (buffer_size srv)) evs"
    and fair: "\<forall>k < length jobs. 14 * length (snd (jobs ! k)) + 17 \<le> turns k evs"
  shows "\<exists>cs sh. pool_run (bl_step fresh) evs (new_calls jobs, new_shared srv) = Inr (cs, sh) \<and>
     (\<forall>k < length jobs. \<exists>st. bc_pc (cs ! k) = B_end st)"
proof -
  from blocking_run [OF assms(1,2), of fresh] obtain cs sh where
    run: "pool_run (bl_step fresh) evs (new_calls jobs, new_shared srv) = Inr (cs, sh)" by blast
  have "\<exists>st. bc_pc (cs ! k) = B_end st" if k: "k < length jobs" for k
  proof -
    have "steps_left (cs ! k) \<le> steps_left (new_calls jobs ! k) - turns k evs"
      using blocking_end.run_left [OF run] k by simp
    also have "steps_left (new_calls jobs ! k) \<le> turns k evs"
      using steps_left_new [of "fst (jobs ! k)" "snd (jobs ! k)"] fair k by (simp add: new_calls_nth le_trans)
    finally show ?thesis by (intro steps_left_0) simp
  qed
  with run show ?thesis by blast
qed

text \<open>C22: concurrent \<^verbatim>\<open>AppendManySmallFiles\<close> calls lose nothing, even on the same files: when all of them have
  returned OK, each file has grown by the data of exactly those requests of all calls that name it, each
  whole and once, in some order.\<close>

theorem small_appends_shared:
  assumes wf: "wf_jobs (unat (buffer_size srv)) (map (Pair Small_handler) streams)" and calm_evs: "only (calm (buffer_size srv)) evs"
    and run: "pool_run (bl_step fresh) evs (new_calls (map (Pair Small_handler) streams), new_shared srv) = Inr (cs, sh)"
    and ok: "\<forall>c \<in> set cs. bc_pc c = B_end Status_OK"
  shows "\<exists>parts. kcontents (map snd (bs_log sh)) m f = m f @ concat parts \<and>
     mset parts = mset (map (copied (unat (buffer_size srv))) (filter (\<lambda>rq. filename rq = f) (concat streams)))"
  by (rule small_appends [OF assms])

text \<open>C24: a \<^verbatim>\<open>SetParameters\<close> of another client corrupts calls of the blocking handlers that are under way, because
  they read \<^verbatim>\<open>buffer_size\<close> again for the allocation, the copy, the write and the check: between allocation
  and copy it makes the copy overflow the new buffer, between copy and write it makes the write read past
  its end, and after a complete write it makes \<^verbatim>\<open>AppendManySmallFiles\<close> report a failure.\<close>

theorem blocking_set_parameters:
  assumes "k < length cs" and "c = cs ! k" and "length (bc_buf c) < 2 ^ 31 - 1"
  shows "(bc_pc c = B_copy \<and> length (bc_buf c) \<le> length (file_data (bc_rq c)) \<longrightarrow>
       (\<exists>p. pool_run (bl_step fresh) [Apply (apply_set p), Step k e] (cs, sh) = Inl Heap_overflow)) \<and>
     (bc_pc c = B_write \<longrightarrow> (\<exists>p. pool_run (bl_step fresh) [Apply (apply_set p), Step k e] (cs, sh) = Inl Overread)) \<and>
     (bc_pc c = B_check \<longrightarrow> (\<exists>p cs' sh'. pool_run (bl_step fresh) [Apply (apply_set p), Step k e] (cs, sh) = Inr (cs', sh') \<and>
        bc_pc (cs' ! k) = B_end (Status_UNKNOWN ''write data failed'')))"
proof (intro conjI impI)
  let ?p = "\<lambda>n. \<lparr>p_blk_size = 4096, p_buffer_size = n, p_queue_depth = 1, p_poll_threshold = 0, p_n = 1, p_nfiles = 1\<rparr>"
  let ?n = "int (length (bc_buf c)) + 1"
  have b: "buffer_size (bs_srv (apply_set (?p n) sh)) = word_of_int n" for n
    by (simp add: apply_set_def SetParameters_def)
  have "uint (word_of_int ?n :: u64) = ?n" using assms(3) by (intro uint64_nonneg) auto
  then have "unat (buffer_size (bs_srv (apply_set (?p ?n) sh))) = nat ?n" by (simp only: b unat_eq_nat_uint)
  then obtain p where p: "unat (buffer_size (bs_srv (apply_set p sh))) = Suc (length (bc_buf c))"
    by (simp only: nat_add_distrib) auto
  {
    assume "bc_pc c = B_copy \<and> length (bc_buf c) \<le> length (file_data (bc_rq c))"
    then have "pool_run (bl_step fresh) [Apply (apply_set p), Step k e] (cs, sh) = Inl Heap_overflow"
      using assms(1,2) p by (auto simp: bl_step_def bl_copy_def memcpy_from_def c_str_def min_def)
    then show "\<exists>p. pool_run (bl_step fresh) [Apply (apply_set p), Step k e] (cs, sh) = Inl Heap_overflow" by blast
  next
    assume "bc_pc c = B_write"
    then have "pool_run (bl_step fresh) [Apply (apply_set p), Step k e] (cs, sh) = Inl Overread"
      using assms(1,2) p by (simp add: bl_step_def bl_write_def Let_def)
    then show "\<exists>p. pool_run (bl_step fresh) [Apply (apply_set p), Step k e] (cs, sh) = Inl Overread" by blast
  next
    assume pc: "bc_pc c = B_check"
    have "(word_of_int (bc_err c) :: u64) \<noteq> word_of_int (bc_err c + 1)" by simp
    then have "pool_run (bl_step fresh) [Apply (apply_set (?p (bc_err c + 1))), Step k e] (cs, sh) =
        Inr (cs[k := goto (B_end (Status_UNKNOWN ''write data failed'')) c], apply_set (?p (bc_err c + 1)) sh)"
      using pc assms(1,2) by (simp add: bl_step_def bl_check_def b)
    then show "\<exists>p cs' sh'. pool_run (bl_step fresh) [Apply (apply_set p), Step k e] (cs, sh) = Inr (cs', sh') \<and>
        bc_pc (cs' ! k) = B_end (Status_UNKNOWN ''write data failed'')"
      using assms(1) by (intro exI conjI) (assumption, simp add: goto_def)
  }
qed

text \<open>the counters of the statistics lose updates: when two calls add to the same counter one after the
  other both times are in it, but when the second loads it before the first has stored, the time of the
  first is gone.\<close>

theorem counter_lost_update:
  assumes "i < length cs" and "j < length cs" and "i \<noteq> j" and "bc_pc (cs ! i) = B_load ctr" and "bc_pc (cs ! j) = B_load ctr"
  shows "(\<exists>cs' sh'. pool_run (bl_step fresh) [Step i d, Step i 0, Step j d', Step j 0] (cs, sh) = Inr (cs', sh') \<and>
       get_counter ctr (bs_srv sh') = get_counter ctr (bs_srv sh) + d + d') \<and>
     (\<exists>cs' sh'. pool_run (bl_step fresh) [Step i d, Step j d', Step i 0, Step j 0] (cs, sh) = Inr (cs', sh') \<and>
       get_counter ctr (bs_srv sh') = get_counter ctr (bs_srv sh) + d')"
proof -
  have get: "get_counter ctr (set_counter ctr v srv) = v" for v srv by (cases ctr) simp_all
  show ?thesis using assms by (simp add: bl_step_def goto_def get)
qed

section \<open>Witnesses\<close>

definition two_bytes :: file_server where
  "two_bytes = snd (SetParameters (sample_params 2 1) file_server0)"

lemma two_bytes_buffer [simp]: "unat (buffer_size two_bytes) = 2"
  by (simp add: two_bytes_def SetParameters_def sample_params_def)

definition two_jobs :: "(bl_kind \<times> file_request list) list" where
  "two_jobs = [(Large_handler, [one_request]), (Small_handler, [one_request])]"

lemma two_jobs_wf: "wf_jobs (unat (buffer_size two_bytes)) two_jobs"
  by (simp add: wf_jobs_def two_jobs_def copyable_def one_request_def requests_of_def)

definition steps :: "(nat \<times> int) list \<Rightarrow> bl_shared pool_event list" where
  "steps = map (\<lambda>(k, e). Step k e)"

lemma steps_calm: "only fs (steps xs)"
  by (auto simp: only_def steps_def)

lemma turns_steps: "turns k (steps xs) = length (filter (\<lambda>x. fst x = k) xs)"
  by (induction xs) (auto simp: steps_def)


theorem blocking_calls_return_witness:
  "\<exists>cs sh. pool_run (bl_step (\<lambda>_. 99)) (steps (concat (replicate 31 [(0, 0), (1, 0)]))) (new_calls two_jobs, new_shared two_bytes) = Inr (cs, sh) \<and>
     (\<exists>st. bc_pc (cs ! 0) = B_end st) \<and> (\<exists>st. bc_pc (cs ! 1) = B_end st)"
proof -
  have n: "length (filter (\<lambda>x. fst x = k) (concat (replicate 31 [(0, 0 :: int), (1, 0)]))) = 31" if "k < 2" for k :: nat
  proof -
    have "length (filter (\<lambda>x. fst x = k) (concat (replicate n [(0 :: nat, 0 :: int), (1, 0)]))) = n" for n
      using that by (induction n) auto
    then show ?thesis .
  qed
  have "\<forall>k < length two_jobs. 14 * length (snd (two_jobs ! k)) + 17 \<le> turns k (steps (concat (replicate 31 [(0, 0), (1, 0)])))"
    unfolding turns_steps using n by (auto simp: two_jobs_def less_Suc_eq)
  from blocking_calls_return [OF two_jobs_wf steps_calm this, of "\<lambda>_. 99"] obtain cs sh where
    run: "pool_run (bl_step (\<lambda>_. 99)) (steps (concat (replicate 31 [(0, 0), (1, 0)]))) (new_calls two_jobs, new_shared two_bytes) = Inr (cs, sh)"
    and ended: "\<forall>k < length two_jobs. \<exists>st. bc_pc (cs ! k) = B_end st" by blast
  from ended have "\<exists>st. bc_pc (cs ! 0) = B_end st" "\<exists>st. bc_pc (cs ! 1) = B_end st" by (simp_all add: two_jobs_def)
  with run show ?thesis by blast
qed


definition both_streams :: "file_request list list" where
  "both_streams = [[one_request], [one_request]]"

definition alternating :: "(nat \<times> int) list" where
  "alternating = concat (map (\<lambda>e. [(0, e), (1, e)]) [0, 3, 0, 0, 0, 0, 0, 0, 2, 0, 0, 0, 0, 0, 0, 0, 0])"

theorem small_appends_shared_witness:
  "\<exists>cs sh parts. pool_run (bl_step (\<lambda>_. 99)) (steps alternating) (new_calls (map (Pair Small_handler) both_streams), new_shared two_bytes) =
       Inr (cs, sh) \<and>
     kcontents (map snd (bs_log sh)) (\<lambda>_. []) (filename one_request) = concat parts \<and>
     mset parts = mset (map (copied 2) (filter (\<lambda>rq. filename rq = filename one_request) (concat both_streams)))"
proof -
  let ?run = "pool_run (bl_step (\<lambda>_. 99)) (steps alternating) (new_calls (map (Pair Small_handler) both_streams), new_shared two_bytes)"
  have "case ?run of Inr (cs, sh) \<Rightarrow> list_all (\<lambda>c. bc_pc c = B_end Status_OK) cs | Inl f \<Rightarrow> False" by code_simp
  then obtain cs sh where run: "?run = Inr (cs, sh)" and ok: "\<forall>c \<in> set cs. bc_pc c = B_end Status_OK"
    by (auto simp: list_all_iff split: sum.splits)
  have wf: "wf_jobs (unat (buffer_size two_bytes)) (map (Pair Small_handler) both_streams)"
    by (simp add: wf_jobs_def both_streams_def copyable_def one_request_def)
  from small_appends_shared [OF wf steps_calm run ok, of "\<lambda>_. []" "filename one_request"] run show ?thesis
    by auto
qed

definition copying :: bl_call where
  "copying = goto B_copy ((bl_new Small_handler [])\<lparr>bc_rq := one_request, bc_buf := [99]\<rparr>)"

theorem blocking_set_parameters_witness:
  "\<exists>p. pool_run (bl_step (\<lambda>_. 99)) [Apply (apply_set p), Step 0 0] ([copying], new_shared two_bytes) = Inl Heap_overflow"
  using blocking_set_parameters [of 0 "[copying]" copying "\<lambda>_. 99" 0 "new_shared two_bytes"]
  by (simp add: copying_def goto_def one_request_def)

definition loading :: bl_call where
  "loading = goto (B_load C_rw) (bl_new Small_handler [])"

theorem counter_lost_update_witness:
  "\<exists>cs' sh'. pool_run (bl_step (\<lambda>_. 99)) [Step 0 5, Step 1 7, Step 0 0, Step 1 0] ([loading, loading], new_shared two_bytes) = Inr (cs', sh') \<and>
     get_counter C_rw (bs_srv sh') = get_counter C_rw two_bytes + 7"
  using counter_lost_update [of 0 "[loading, loading]" 1 C_rw "\<lambda>_. 99" 5 7 "new_shared two_bytes"]
  by (simp add: loading_def goto_def new_shared_def)

end
