(* ===== verification/File_Client.thy ===== *)
theory File_Client
  imports Uring_Service
begin

text \<open>
  The client of the file service, \<^verbatim>\<open>src/src/file_initiator.cc\<close>: the parameters it announces, the
  request streams of its tests, its report, and the choice of the test by \<^verbatim>\<open>main\<close>. The globals that
  \<^verbatim>\<open>parse_args\<close> fills are the record \<open>client_cfg\<close>; the stub that gRPC generates is the record
  \<open>stub\<close> of calls. The floating-point figures of the report are not modelled.
\<close>

section \<open>Configuration and the stub\<close>

record client_cfg =
  server_addr :: string
  server_port :: int
  c_buffer_size :: u64
  c_blk_size :: u64
  c_N :: int
  c_queue_depth :: int
  idle_threshold :: int
  c_large :: bool
  c_closed_loop :: bool
  c_exprm :: string
  c_fn :: int
  c_numthreads :: int

datatype file_rpc = Rpc_AppendOneLargeFile | Rpc_AppendManySmallFiles | Rpc_AppendOneLargeFileAsync
  | Rpc_AppendManySmallFilesAsync | Rpc_AppendOneLargeFileAsyncExpr

record 'w stub =
  sb_now :: "'w \<Rightarrow> int \<times> 'w"
  sb_SetParameters :: "parameters \<Rightarrow> 'w \<Rightarrow> bool \<times> 'w"     \<comment> \<open>\<^verbatim>\<open>status.ok()\<close>\<close>
  sb_start :: "file_rpc \<Rightarrow> 'w \<Rightarrow> 'w"
  sb_Write :: "file_request \<Rightarrow> 'w \<Rightarrow> bool \<times> 'w"
  sb_Read :: "'w \<Rightarrow> file_reply option \<times> 'w"
  sb_WritesDone :: "'w \<Rightarrow> 'w"
  sb_Finish :: "'w \<Rightarrow> bool \<times> 'w"

definition build_rpc_stub :: "(string \<Rightarrow> 'w stub) \<Rightarrow> client_cfg \<Rightarrow> 'w stub" where
  "build_rpc_stub connect cfg = connect (server_addr cfg @ '':'' @ to_string (server_port cfg))"

text \<open>The 64-bit sizes are converted to the 32-bit fields of the message.\<close>

definition params_of :: "client_cfg \<Rightarrow> int \<Rightarrow> int \<Rightarrow> parameters" where
  "params_of cfg threshold nfiles =
     \<lparr>p_blk_size = to_int32 (uint (c_blk_size cfg)), p_buffer_size = to_int32 (uint (c_buffer_size cfg)),
      p_queue_depth = c_queue_depth cfg, p_poll_threshold = threshold, p_n = c_N cfg, p_nfiles = nfiles\<rparr>"

text \<open>\<^verbatim>\<open>set_target_params\<close> reports a failure but its callers go on; \<^verbatim>\<open>nfiles\<close> keeps its default 0.\<close>

definition set_target_params :: "'w stub \<Rightarrow> client_cfg \<Rightarrow> 'w \<Rightarrow> 'w" where
  "set_target_params stub cfg w = snd (sb_SetParameters stub (params_of cfg (idle_threshold cfg) 0) w)"

section \<open>Requests\<close>

definition client_buffer :: "client_cfg \<Rightarrow> byte list" where
  "client_buffer cfg = replicate (unat (c_buffer_size cfg)) 255"

text \<open>
  \<^verbatim>\<open>request.set_data(buffer)\<close> takes a C string: it reads up to the first zero byte, in the buffer or
  in what the heap holds after it (\<open>past\<close>).
\<close>

definition set_data_cstr :: "byte list \<Rightarrow> byte list \<Rightarrow> byte list outcome" where
  "set_data_cstr past buffer =
     (if 0 \<in> set (buffer @ past) then Inr (takeWhile (\<lambda>b. b \<noteq> 0) (buffer @ past)) else Inl Overread)"

definition large_request :: "byte list \<Rightarrow> file_request" where
  "large_request data = \<lparr>filename = ''/mnt/large-file'', file_data = data\<rparr>"

definition small_request_of :: "byte list \<Rightarrow> nat \<Rightarrow> file_request" where
  "small_request_of data i = \<lparr>filename = ''/mnt/small-file-'' @ to_string (int i), file_data = data\<rparr>"

definition small_async_request_of :: "byte list \<Rightarrow> nat \<Rightarrow> file_request" where
  "small_async_request_of data i = \<lparr>filename = ''/mnt/small-file'' @ to_string (int i), file_data = data\<rparr>"

definition expr_request :: "byte list \<Rightarrow> file_request" where
  "expr_request data = \<lparr>filename = [], file_data = data\<rparr>"

section \<open>The tests\<close>

fun write_read_loop :: "'w stub \<Rightarrow> (nat \<Rightarrow> file_request) \<Rightarrow> nat list \<Rightarrow> 'w \<Rightarrow> 'w" where
  "write_read_loop stub rq [] w = w"
| "write_read_loop stub rq (i # is) w =
     (case sb_Write stub (rq i) w of (_, w1) \<Rightarrow>
      case sb_Read stub w1 of (_, w2) \<Rightarrow> write_read_loop stub rq is w2)"

fun write_loop :: "'w stub \<Rightarrow> (nat \<Rightarrow> file_request) \<Rightarrow> nat list \<Rightarrow> 'w \<Rightarrow> 'w" where
  "write_loop stub rq [] w = w"
| "write_loop stub rq (i # is) w =
     (case sb_Write stub (rq i) w of (_, w1) \<Rightarrow> write_loop stub rq is w1)"

text \<open>The report of a test: the duration and the number of bytes, \<^verbatim>\<open>N * buffer_size\<close> as a \<^verbatim>\<open>size_t\<close>.\<close>

type_synonym report = "(int \<times> u64) option"

definition total_bytes :: "client_cfg \<Rightarrow> u64" where
  "total_bytes cfg = word_of_int (c_N cfg) * c_buffer_size cfg"

definition blocking_stream ::
  "'w stub \<Rightarrow> client_cfg \<Rightarrow> byte list \<Rightarrow> file_rpc \<Rightarrow> (byte list \<Rightarrow> nat \<Rightarrow> file_request) \<Rightarrow> 'w \<Rightarrow>
     (report \<times> 'w) outcome" where
  "blocking_stream stub cfg past rpc rq w =
     (let w1 = sb_start stub rpc (set_target_params stub cfg w) in
      bindF (set_data_cstr past (client_buffer cfg)) (\<lambda>data.
      case sb_now stub w1 of (start, w2) \<Rightarrow>
      let w3 = sb_WritesDone stub (write_read_loop stub (rq data) [0..<nat (c_N cfg)] w2) in
      case sb_Finish stub w3 of (ok, w4) \<Rightarrow>
      if \<not> ok then Inr (None, w4)
      else case sb_now stub w4 of (end, w5) \<Rightarrow> Inr (Some (end - start, total_bytes cfg), w5)))"

definition async_stream ::
  "'w stub \<Rightarrow> client_cfg \<Rightarrow> byte list \<Rightarrow> file_rpc \<Rightarrow> (byte list \<Rightarrow> nat \<Rightarrow> file_request) \<Rightarrow> 'w \<Rightarrow>
     (report \<times> 'w) outcome" where
  "async_stream stub cfg past rpc rq w =
     (let w1 = sb_start stub rpc w in
      bindF (set_data_cstr past (client_buffer cfg)) (\<lambda>data.
      case sb_now stub w1 of (start, w2) \<Rightarrow>
      let w3 = sb_WritesDone stub (write_loop stub (rq data) [0..<nat (c_N cfg)] w2) in
      case sb_Read stub w3 of (_, w4) \<Rightarrow>
      case sb_Finish stub w4 of (ok, w5) \<Rightarrow>
      if \<not> ok then Inr (None, w5)
      else case sb_now stub w5 of (end, w6) \<Rightarrow> Inr (Some (end - start, total_bytes cfg), w6)))"

definition test_large_blocking :: "'w stub \<Rightarrow> client_cfg \<Rightarrow> byte list \<Rightarrow> 'w \<Rightarrow> (report \<times> 'w) outcome" where
  "test_large_blocking stub cfg past =
     blocking_stream stub cfg past Rpc_AppendOneLargeFile (\<lambda>data _. large_request data)"

definition test_small_blocking :: "'w stub \<Rightarrow> client_cfg \<Rightarrow> byte list \<Rightarrow> 'w \<Rightarrow> (report \<times> 'w) outcome" where
  "test_small_blocking stub cfg past =
     blocking_stream stub cfg past Rpc_AppendManySmallFiles small_request_of"

definition test_small_async :: "'w stub \<Rightarrow> client_cfg \<Rightarrow> byte list \<Rightarrow> 'w \<Rightarrow> (report \<times> 'w) outcome" where
  "test_small_async stub cfg past w =
     async_stream stub cfg past Rpc_AppendManySmallFilesAsync small_async_request_of
       (set_target_params stub cfg w)"

definition test_large_async :: "'w stub \<Rightarrow> client_cfg \<Rightarrow> byte list \<Rightarrow> 'w \<Rightarrow> (report \<times> 'w) outcome" where
  "test_large_async stub cfg past w =
     async_stream stub cfg past Rpc_AppendOneLargeFileAsync (\<lambda>data _. large_request data)
       (set_target_params stub cfg w)"

text \<open>The experiment announces the number of files and gives up when that fails.\<close>

definition test_large_async_expr :: "'w stub \<Rightarrow> client_cfg \<Rightarrow> byte list \<Rightarrow> 'w \<Rightarrow> (report \<times> 'w) outcome" where
  "test_large_async_expr stub cfg past w =
     (case sb_SetParameters stub (params_of cfg (idle_threshold cfg) (c_fn cfg)) w of (ok, w1) \<Rightarrow>
      if \<not> ok then Inr (None, w1)
      else async_stream stub cfg past Rpc_AppendOneLargeFileAsyncExpr (\<lambda>data _. expr_request data) w1)"

section \<open>The choice of the test\<close>

datatype client_test = Large_blocking | Small_blocking | Large_async | Small_async | Large_async_expr
  | Large_async_multithreads | No_test

definition client_main :: "client_cfg \<Rightarrow> client_test" where
  "client_main cfg =
     (if c_exprm cfg \<noteq> [] then
        if c_exprm cfg = ''ml'' then Large_async_expr
        else if c_exprm cfg = ''mt'' then (if c_large cfg then Large_async_multithreads else No_test)
        else No_test
      else if c_closed_loop cfg then (if c_large cfg then Large_blocking else Small_blocking)
      else (if c_large cfg then Large_async else Small_async))"

section \<open>What the client relies on\<close>

text \<open>The stub sends what it is given, in order; nothing else it does sends a request.\<close>

definition stub_law :: "'w stub \<Rightarrow> ('w \<Rightarrow> parameters option) \<Rightarrow> ('w \<Rightarrow> file_request list) \<Rightarrow> bool" where
  "stub_law stub params sent \<longleftrightarrow>
     (\<forall>w t w'. sb_now stub w = (t, w') \<longrightarrow> sent w' = sent w \<and> params w' = params w) \<and>
     (\<forall>p w ok w'. sb_SetParameters stub p w = (ok, w') \<longrightarrow> sent w' = sent w \<and> (ok \<longrightarrow> params w' = Some p)) \<and>
     (\<forall>rpc w. sent (sb_start stub rpc w) = [] \<and> params (sb_start stub rpc w) = params w) \<and>
     (\<forall>rq w b w'. sb_Write stub rq w = (b, w') \<longrightarrow> sent w' = sent w @ [rq] \<and> params w' = params w) \<and>
     (\<forall>w r w'. sb_Read stub w = (r, w') \<longrightarrow> sent w' = sent w \<and> params w' = params w) \<and>
     (\<forall>w. sent (sb_WritesDone stub w) = sent w \<and> params (sb_WritesDone stub w) = params w) \<and>
     (\<forall>w ok w'. sb_Finish stub w = (ok, w') \<longrightarrow> sent w' = sent w \<and> params w' = params w)"

lemma stub_lawD:
  assumes "stub_law stub params sent"
  shows "sb_now stub w = (t, w') \<Longrightarrow> sent w' = sent w \<and> params w' = params w"
    and "sb_SetParameters stub p w = (ok, w') \<Longrightarrow> sent w' = sent w \<and> (ok \<longrightarrow> params w' = Some p)"
    and "sent (sb_start stub rpc w) = []" and "params (sb_start stub rpc w) = params w"
    and "sb_Write stub rq w = (b, w') \<Longrightarrow> sent w' = sent w @ [rq] \<and> params w' = params w"
    and "sb_Read stub w = (r, w') \<Longrightarrow> sent w' = sent w \<and> params w' = params w"
    and "sent (sb_WritesDone stub w) = sent w" and "params (sb_WritesDone stub w) = params w"
    and "sb_Finish stub w = (ok, w') \<Longrightarrow> sent w' = sent w \<and> params w' = params w"
  using assms unfolding stub_law_def by metis+

lemma write_read_loop_sent:
  assumes "stub_law stub params sent"
  shows "sent (write_read_loop stub rq is w) = sent w @ map rq is \<and>
         params (write_read_loop stub rq is w) = params w"
proof (induction "is" arbitrary: w)
  case (Cons i "is")
  obtain b w1 where w1: "sb_Write stub (rq i) w = (b, w1)" by (metis prod.exhaust)
  obtain r w2 where w2: "sb_Read stub w1 = (r, w2)" by (metis prod.exhaust)
  show ?case
    using Cons.IH [of w2] stub_lawD(5) [OF assms w1] stub_lawD(6) [OF assms w2] by (simp add: w1 w2)
qed simp

lemma write_loop_sent:
  assumes "stub_law stub params sent"
  shows "sent (write_loop stub rq is w) = sent w @ map rq is \<and>
         params (write_loop stub rq is w) = params w"
proof (induction "is" arbitrary: w)
  case (Cons i "is")
  obtain b w1 where w1: "sb_Write stub (rq i) w = (b, w1)" by (metis prod.exhaust)
  show ?case using Cons.IH [of w1] stub_lawD(5) [OF assms w1] by (simp add: w1)
qed simp

text \<open>
  The data of a request: every byte of the buffer is non-zero, so the string read runs past its end.
\<close>

lemma set_data_client:
  "set_data_cstr past (client_buffer cfg) =
     (if 0 \<in> set past then Inr (client_buffer cfg @ takeWhile (\<lambda>b. b \<noteq> 0) past) else Inl Overread)"
  by (auto simp: set_data_cstr_def client_buffer_def takeWhile_append)

lemma set_data_client_length:
  "set_data_cstr past (client_buffer cfg) = Inr data \<Longrightarrow>
     \<exists>extra. data = client_buffer cfg @ extra \<and> unat (c_buffer_size cfg) \<le> length data"
  by (auto simp: set_data_client split: if_splits) (simp_all add: client_buffer_def)

lemma blocking_stream_sent:
  assumes law: "stub_law stub params sent" and run: "blocking_stream stub cfg past rpc rq w = Inr (rep, w')"
  shows "\<exists>data. set_data_cstr past (client_buffer cfg) = Inr data \<and>
     sent w' = map (rq data) [0..<nat (c_N cfg)] \<and> params w' = params (set_target_params stub cfg w)"
proof -
  let ?w1 = "sb_start stub rpc (set_target_params stub cfg w)"
  obtain data where d: "set_data_cstr past (client_buffer cfg) = Inr data"
    using run by (auto simp: blocking_stream_def run_iffs)
  obtain t w2 where c: "sb_now stub ?w1 = (t, w2)" by (metis prod.exhaust)
  define w3 where "w3 = sb_WritesDone stub (write_read_loop stub (rq data) [0..<nat (c_N cfg)] w2)"
  obtain ok w4 where f: "sb_Finish stub w3 = (ok, w4)" by (metis prod.exhaust)
  obtain e w5 where n: "sb_now stub w4 = (e, w5)" by (metis prod.exhaust)
  have "w' = (if ok then w5 else w4)"
    using run by (auto simp: blocking_stream_def d Let_def c w3_def [symmetric] f n split: if_splits)
  moreover have "sent w5 = sent w4" "params w5 = params w4" using stub_lawD(1) [OF law n] by auto
  moreover have "sent w4 = map (rq data) [0..<nat (c_N cfg)]" "params w4 = params (set_target_params stub cfg w)"
    using stub_lawD [OF law] stub_lawD(1) [OF law c] stub_lawD(9) [OF law f]
      write_read_loop_sent [OF law, of "rq data" "[0..<nat (c_N cfg)]" w2]
    by (simp_all add: w3_def)
  ultimately show ?thesis using d by auto
qed

lemma async_stream_sent:
  assumes law: "stub_law stub params sent" and run: "async_stream stub cfg past rpc rq w = Inr (rep, w')"
  shows "\<exists>data. set_data_cstr past (client_buffer cfg) = Inr data \<and>
     sent w' = map (rq data) [0..<nat (c_N cfg)] \<and> params w' = params w"
proof -
  obtain data where d: "set_data_cstr past (client_buffer cfg) = Inr data"
    using run by (auto simp: async_stream_def run_iffs)
  obtain t w2 where c: "sb_now stub (sb_start stub rpc w) = (t, w2)" by (metis prod.exhaust)
  define w3 where "w3 = sb_WritesDone stub (write_loop stub (rq data) [0..<nat (c_N cfg)] w2)"
  obtain r w4 where r: "sb_Read stub w3 = (r, w4)" by (metis prod.exhaust)
  obtain ok w5 where f: "sb_Finish stub w4 = (ok, w5)" by (metis prod.exhaust)
  obtain e w6 where n: "sb_now stub w5 = (e, w6)" by (metis prod.exhaust)
  have "w' = (if ok then w6 else w5)"
    using run by (auto simp: async_stream_def d Let_def c w3_def [symmetric] r f n split: if_splits)
  moreover have "sent w6 = sent w5" "params w6 = params w5" using stub_lawD(1) [OF law n] by auto
  moreover have "sent w5 = map (rq data) [0..<nat (c_N cfg)]" "params w5 = params w"
    using stub_lawD [OF law] stub_lawD(1) [OF law c] stub_lawD(6) [OF law r] stub_lawD(9) [OF law f]
      write_loop_sent [OF law, of "rq data" "[0..<nat (c_N cfg)]" w2]
    by (simp_all add: w3_def)
  ultimately show ?thesis using d by auto
qed

lemma set_target_params_set:
  assumes "stub_law stub params sent" and "fst (sb_SetParameters stub (params_of cfg (idle_threshold cfg) 0) w)"
  shows "params (set_target_params stub cfg w) = Some (params_of cfg (idle_threshold cfg) 0)"
  using stub_lawD(2) [OF assms(1)] assms(2) unfolding set_target_params_def by (metis prod.collapse)

text \<open>A configuration whose sizes fit the messages and the system calls.\<close>

definition wf_cfg :: "client_cfg \<Rightarrow> bool" where
  "wf_cfg cfg \<longleftrightarrow> unat (c_buffer_size cfg) \<le> RW_MAX \<and> uint (c_blk_size cfg) \<le> INT_MAX \<and>
     valid_align (c_blk_size cfg) \<and> 0 < c_N cfg"

lemma wf_cfg_server:
  assumes "wf_cfg cfg" and "srv' = snd (SetParameters (params_of cfg threshold nfiles) srv)"
  shows "wf_params srv'" and "buffer_size srv' = c_buffer_size cfg"
proof -
  have "int (unat (c_buffer_size cfg)) \<le> int RW_MAX" using assms(1) unfolding wf_cfg_def of_nat_le_iff by blast
  then have "is_int (uint (c_buffer_size cfg))" by (intro is_int_nonneg) simp_all
  moreover have "is_int (uint (c_blk_size cfg))" using assms(1) by (intro is_int_nonneg) (simp_all add: wf_cfg_def)
  ultimately show "buffer_size srv' = c_buffer_size cfg" and "wf_params srv'"
    using assms by (simp_all add: SetParameters_def params_of_def wf_params_def wf_cfg_def)
qed

section \<open>A concrete stub\<close>

type_synonym stub_world = "parameters option \<times> file_request list"

definition list_stub :: "stub_world stub" where
  "list_stub = \<lparr>sb_now = (\<lambda>w. (0, w)), sb_SetParameters = (\<lambda>p (_, rs). (True, (Some p, rs))),
     sb_start = (\<lambda>_ (p, rs). (p, [])), sb_Write = (\<lambda>rq (p, rs). (True, (p, rs @ [rq]))),
     sb_Read = (\<lambda>w. (Some empty_file_reply, w)), sb_WritesDone = (\<lambda>w. w), sb_Finish = (\<lambda>w. (True, w))\<rparr>"

lemma list_stub_law: "stub_law list_stub fst snd"
  by (auto simp: stub_law_def list_stub_def)

definition sample_cfg :: client_cfg where
  "sample_cfg = \<lparr>server_addr = ''10.10.1.2'', server_port = 9876, c_buffer_size = 2, c_blk_size = 4096,
     c_N = 3, c_queue_depth = 128, idle_threshold = 2000, c_large = True, c_closed_loop = True,
     c_exprm = [], c_fn = 1, c_numthreads = 4\<rparr>"

lemma sample_cfg_wf: "wf_cfg sample_cfg"
proof -
  have "valid_align 4096" unfolding valid_align_def by (rule bexI [of _ 12]) simp_all
  then show ?thesis by (simp add: wf_cfg_def sample_cfg_def)
qed

section \<open>Properties\<close>

text \<open>the buffer of a test holds no zero byte, so handing it over as a C string always reads past
  its end: the data is the whole buffer followed by what the heap holds up to the next zero byte, and
  the test leaves the language when there is none. Whatever is sent is at least \<^verbatim>\<open>buffer_size\<close> long.\<close>

theorem client_data_past_buffer:
  "set_data_cstr past (client_buffer cfg) =
     (if 0 \<in> set past then Inr (client_buffer cfg @ takeWhile (\<lambda>b. b \<noteq> 0) past) else Inl Overread) \<and>
   test_large_blocking stub cfg [] w = Inl Overread \<and> test_large_async stub cfg [] w = Inl Overread"
proof -
  have "set_data_cstr [] (client_buffer cfg) = Inl Overread" by (simp add: set_data_client)
  then show ?thesis
    by (simp add: set_data_client test_large_blocking_def blocking_stream_def test_large_async_def
        async_stream_def Let_def)
qed

text \<open>a test that runs sends exactly \<^verbatim>\<open>N\<close> requests, in order, each with the same data of at least
  \<^verbatim>\<open>buffer_size\<close> bytes, after announcing that \<^verbatim>\<open>N\<close>: the asynchronous handler waits for precisely as
  many completions as it is sent requests.\<close>

theorem client_async_announces:
  assumes law: "stub_law stub params sent" and "wf_cfg cfg"
    and ok: "fst (sb_SetParameters stub (params_of cfg (idle_threshold cfg) 0) w)"
    and run: "test_large_async stub cfg past w = Inr (rep, w')"
  shows "\<exists>data ps. sent w' = replicate (nat (c_N cfg)) (large_request data) \<and> params w' = Some ps \<and>
     p_n ps = int (length (sent w')) \<and> (\<forall>rq \<in> set (sent w'). enough_data (unat (c_buffer_size cfg)) rq)"
proof -
  from async_stream_sent [OF law run [unfolded test_large_async_def]]
  obtain data where d: "set_data_cstr past (client_buffer cfg) = Inr data" and
    s: "sent w' = map (\<lambda>_. large_request data) [0..<nat (c_N cfg)]" and
    p: "params w' = Some (params_of cfg (idle_threshold cfg) 0)"
    using set_target_params_set [OF law ok] by auto
  have "unat (c_buffer_size cfg) \<le> length data"
    using set_data_client_length [OF d] by blast
  then show ?thesis
    using s p assms(2)
    by (auto simp: map_replicate_const params_of_def wf_cfg_def enough_data_def large_request_def)
qed

theorem client_async_announces_witness:
  "\<exists>rep w'. test_large_async list_stub sample_cfg [7, 0, 9] (None, []) = Inr (rep, w') \<and>
     (\<exists>data ps. snd w' = replicate (nat 3) (large_request data) \<and> fst w' = Some ps \<and>
       p_n ps = int (length (snd w')) \<and> (\<forall>rq \<in> set (snd w'). enough_data (unat (2 :: u64)) rq))"
proof -
  obtain rep w' where run: "test_large_async list_stub sample_cfg [7, 0, 9] (None, []) = Inr (rep, w')"
    by (simp add: test_large_async_def async_stream_def set_data_client list_stub_def set_target_params_def
        split: prod.splits)
  have "fst (sb_SetParameters list_stub (params_of sample_cfg (idle_threshold sample_cfg) 0) (None, []))"
    by (simp add: list_stub_def)
  from client_async_announces [OF list_stub_law sample_cfg_wf this run] run show ?thesis
    by (auto simp: sample_cfg_def)
qed

end
