(* ===== verification/Client_Threads.thy ===== *)
theory Client_Threads
  imports File_Client
begin

text \<open>
  The test of \<^verbatim>\<open>src/src/file_initiator.cc\<close> that runs several client threads,
  \<^verbatim>\<open>test_large_async_multithreads\<close>: one announcement of the parameters, then \<^verbatim>\<open>numthreads\<close> threads that
  share the stub, each with a stream of its own to \<^verbatim>\<open>AppendOneLargeFileAsyncExpr\<close>. Their interleavings
  are the relation \<open>threads_step\<close>.
\<close>

section \<open>One thread\<close>

datatype thread_pc =
    Opening
  | Writing "byte list" nat     \<comment> \<open>the data of the request and the loop variable\<close>
  | Finishing                   \<comment> \<open>after \<^verbatim>\<open>WritesDone\<close>, before \<^verbatim>\<open>Finish\<close> returned\<close>
  | Ended bool                  \<comment> \<open>whether the status was OK\<close>
  | Faulted fault

record client_thread =
  ct_pc :: thread_pc
  ct_stream :: "file_request list"      \<comment> \<open>requests written to the thread's stream\<close>

definition new_thread :: client_thread where
  "new_thread = \<lparr>ct_pc = Opening, ct_stream = []\<rparr>"

text \<open>Opening the stream, filling the buffer and taking the data out of it; \<open>past\<close> is the heap after it.\<close>

definition thread_open :: "client_cfg \<Rightarrow> byte list \<Rightarrow> client_thread \<Rightarrow> client_thread" where
  "thread_open cfg past th = (case set_data_cstr past (client_buffer cfg) of
     Inl f \<Rightarrow> th\<lparr>ct_pc := Faulted f\<rparr> | Inr data \<Rightarrow> th\<lparr>ct_pc := Writing data 0\<rparr>)"

definition thread_write :: "client_cfg \<Rightarrow> byte list \<Rightarrow> nat \<Rightarrow> client_thread \<Rightarrow> client_thread" where
  "thread_write cfg data i th =
     (if int i < c_N cfg
      then th\<lparr>ct_pc := Writing data (Suc i), ct_stream := ct_stream th @ [expr_request data]\<rparr>
      else th\<lparr>ct_pc := Finishing\<rparr>)"

inductive thread_step :: "client_cfg \<Rightarrow> client_thread \<Rightarrow> client_thread \<Rightarrow> bool" for cfg where
  opens: "ct_pc th = Opening \<Longrightarrow> thread_step cfg th (thread_open cfg past th)"
| writes: "ct_pc th = Writing data i \<Longrightarrow> thread_step cfg th (thread_write cfg data i th)"
| ends: "ct_pc th = Finishing \<Longrightarrow> thread_step cfg th (th\<lparr>ct_pc := Ended ok\<rparr>)"

section \<open>All threads\<close>

text \<open>A fault of one thread ends the process; the test goes on when all threads have been joined.\<close>

inductive threads_step :: "client_cfg \<Rightarrow> client_thread list \<Rightarrow> client_thread list \<Rightarrow> bool" for cfg where
  thread: "t < length ths \<Longrightarrow> \<forall>th \<in> set ths. \<forall>f. ct_pc th \<noteq> Faulted f \<Longrightarrow> thread_step cfg (ths ! t) th' \<Longrightarrow>
     threads_step cfg ths (ths[t := th'])"

inductive threads_reachable :: "client_cfg \<Rightarrow> client_thread list \<Rightarrow> client_thread list \<Rightarrow> bool" for cfg ths0 where
  start: "threads_reachable cfg ths0 ths0"
| step: "threads_reachable cfg ths0 ths \<Longrightarrow> threads_step cfg ths ths' \<Longrightarrow> threads_reachable cfg ths0 ths'"

definition threads_joined :: "client_thread list \<Rightarrow> bool" where
  "threads_joined ths \<longleftrightarrow> (\<forall>th \<in> set ths. \<exists>ok. ct_pc th = Ended ok)"

text \<open>\<^verbatim>\<open>poll_threshold\<close> is not set and keeps its default 0; a failed announcement ends the test.\<close>

definition multithreads_start ::
  "'w stub \<Rightarrow> client_cfg \<Rightarrow> 'w \<Rightarrow> client_thread list option \<times> 'w" where
  "multithreads_start stub cfg w =
     (case sb_SetParameters stub (params_of cfg 0 (c_fn cfg)) w of (ok, w1) \<Rightarrow>
      if \<not> ok then (None, w1) else (Some (replicate (nat (c_numthreads cfg)) new_thread), w1))"

text \<open>The figure of the report: \<^verbatim>\<open>numthreads * N\<close> is a product of \<^verbatim>\<open>int\<close>s.\<close>

definition multithreads_bytes :: "client_cfg \<Rightarrow> u64 outcome" where
  "multithreads_bytes cfg =
     bindF (checked_int (c_numthreads cfg * c_N cfg)) (\<lambda>n. Inr (word_of_int n * c_buffer_size cfg))"

section \<open>The invariant of a thread\<close>

definition thread_inv :: "client_cfg \<Rightarrow> client_thread \<Rightarrow> bool" where
  "thread_inv cfg th \<longleftrightarrow> (case ct_pc th of
     Opening \<Rightarrow> ct_stream th = []
   | Writing data i \<Rightarrow> ct_stream th = replicate i (expr_request data) \<and> i \<le> nat (c_N cfg) \<and>
       unat (c_buffer_size cfg) \<le> length data \<and> take (unat (c_buffer_size cfg)) data = client_buffer cfg
   | Faulted f \<Rightarrow> True
   | _ \<Rightarrow> (\<exists>data. ct_stream th = replicate (nat (c_N cfg)) (expr_request data) \<and>
       unat (c_buffer_size cfg) \<le> length data \<and> take (unat (c_buffer_size cfg)) data = client_buffer cfg))"

lemma set_data_prefix:
  assumes "set_data_cstr past (client_buffer cfg) = Inr data"
  shows "unat (c_buffer_size cfg) \<le> length data" and "take (unat (c_buffer_size cfg)) data = client_buffer cfg"
proof -
  obtain extra where "data = client_buffer cfg @ extra" using set_data_client_length [OF assms] by blast
  then show "unat (c_buffer_size cfg) \<le> length data" and "take (unat (c_buffer_size cfg)) data = client_buffer cfg"
    by (simp_all add: client_buffer_def)
qed

lemma thread_step_inv: "thread_step cfg th th' \<Longrightarrow> thread_inv cfg th \<Longrightarrow> thread_inv cfg th'"
proof (induction rule: thread_step.induct)
  case (opens th past)
  then show ?case
    by (cases "set_data_cstr past (client_buffer cfg)") (auto simp: thread_open_def thread_inv_def set_data_prefix)
next
  case (writes th data i)
  show ?case
  proof (cases "int i < c_N cfg")
    case True
    then show ?thesis
      using writes by (auto simp: thread_write_def thread_inv_def replicate_append_same)
  next
    case False
    then have "nat (c_N cfg) \<le> i" by simp
    then show ?thesis using writes False by (auto simp: thread_write_def thread_inv_def)
  qed
next
  case (ends th ok)
  then show ?case by (simp add: thread_inv_def)
qed

lemma threads_reachable_inv:
  assumes "threads_reachable cfg (replicate n new_thread) ths"
  shows "length ths = n \<and> (\<forall>th \<in> set ths. thread_inv cfg th)"
  using assms
proof induction
  case (step ths ths')
  from step.hyps(2) step.IH show ?case
    by cases (auto dest!: subsetD [OF set_update_subset_insert] intro: thread_step_inv nth_mem)
qed (simp add: thread_inv_def new_thread_def)

section \<open>A run of one thread\<close>

lemma one_thread_run:
  assumes N: "c_N cfg = 1" and d: "set_data_cstr past (client_buffer cfg) = Inr data"
  shows "threads_reachable cfg (replicate 1 new_thread) [\<lparr>ct_pc = Ended ok, ct_stream = [expr_request data]\<rparr>]"
proof -
  have one: "threads_step cfg [th] [th']" if "thread_step cfg th th'" and "\<And>f. ct_pc th \<noteq> Faulted f" for th th'
    using threads_step.thread [of 0 "[th]" cfg th'] that by simp
  have 1: "thread_step cfg new_thread (new_thread\<lparr>ct_pc := Writing data 0\<rparr>)"
    using thread_step.opens [of new_thread cfg past] d by (simp add: new_thread_def thread_open_def)
  have 2: "thread_step cfg (new_thread\<lparr>ct_pc := Writing data 0\<rparr>)
      \<lparr>ct_pc = Writing data 1, ct_stream = [expr_request data]\<rparr>"
    using thread_step.writes [of "new_thread\<lparr>ct_pc := Writing data 0\<rparr>" data 0 cfg] N
    by (simp add: new_thread_def thread_write_def)
  have 3: "thread_step cfg \<lparr>ct_pc = Writing data 1, ct_stream = [expr_request data]\<rparr>
      \<lparr>ct_pc = Finishing, ct_stream = [expr_request data]\<rparr>"
    using thread_step.writes [of "\<lparr>ct_pc = Writing data 1, ct_stream = [expr_request data]\<rparr>" data 1 cfg] N
    by (simp add: thread_write_def)
  have 4: "thread_step cfg \<lparr>ct_pc = Finishing, ct_stream = [expr_request data]\<rparr>
      \<lparr>ct_pc = Ended ok, ct_stream = [expr_request data]\<rparr>"
    using thread_step.ends [of "\<lparr>ct_pc = Finishing, ct_stream = [expr_request data]\<rparr>" cfg ok] by simp
  show ?thesis
    using threads_reachable.start [of cfg "[new_thread]"] one [OF 1] one [OF 2] one [OF 3] one [OF 4]
    by (simp add: new_thread_def) (meson threads_reachable.step)
qed

end
