(* ===== verification/File_Local.thy ===== *)
theory File_Local
  imports Uring_Service
begin

text \<open>
  The local file benchmark, \<^verbatim>\<open>src/src/file_rw_nvmeof.cc\<close>: its options and the choice that \<^verbatim>\<open>main\<close>
  makes, the two blocking tests as functions over the calls of the kernel (\<open>posix\<close>), and the tests
  over io_uring as the relation \<open>local_step\<close> between the submitting thread, the kernel and the thread
  that reaps completions. The tests over libaio are in the theory \<open>Aio_Local\<close>.
\<close>

section \<open>Options and dispatch\<close>

record local_options =
  opt_d :: int
  opt_b :: int
  opt_bs :: int
  opt_n :: int
  opt_t :: int
  opt_l :: bool
  opt_p :: bool
  opt_c :: bool
  opt_r :: bool
  opt_a :: bool
  opt_exp :: string
  opt_fn :: int
  opt_threads :: int

record local_cfg =
  l_N :: int
  l_buffer_size :: u64
  l_blk_size :: u64
  l_queue_depth :: int
  l_idle_threshold :: int
  l_large :: bool
  l_poll :: bool
  l_closed_loop :: bool
  l_test_read :: bool
  l_aio :: bool
  l_exprm :: string
  l_fn :: int
  l_numthreads :: int

text \<open>What \<^verbatim>\<open>parse_args\<close> does with the values that the option parser found.\<close>

definition local_cfg_of :: "local_options \<Rightarrow> local_cfg" where
  "local_cfg_of opts = \<lparr>l_N = opt_n opts, l_buffer_size = word_of_int (opt_b opts),
     l_blk_size = word_of_int (opt_bs opts), l_queue_depth = opt_d opts, l_idle_threshold = opt_t opts,
     l_large = opt_l opts, l_poll = opt_p opts, l_closed_loop = opt_c opts, l_test_read = opt_r opts,
     l_aio = opt_a opts, l_exprm = opt_exp opts, l_fn = opt_fn opts, l_numthreads = opt_threads opts\<rparr>"

definition default_options :: local_options where
  "default_options = \<lparr>opt_d = 128, opt_b = 4096, opt_bs = 4096, opt_n = 10000, opt_t = 2000,
     opt_l = False, opt_p = False, opt_c = False, opt_r = False, opt_a = False, opt_exp = [],
     opt_fn = 1, opt_threads = 1\<rparr>"

datatype local_test_name =
    Io_uring_exp_contention | Io_uring_exp_multithreads_large | Io_uring_exp_multithreads_small
  | Large_blocking | Small_blocking | Large_aio | Large_io_uring_poll | Large_io_uring
  | Small_aio | Not_implemented | Small_io_uring | No_test

definition local_main :: "local_cfg \<Rightarrow> local_test_name" where
  "local_main cfg =
     (if l_exprm cfg \<noteq> [] then
        (if l_exprm cfg = ''ml'' then Io_uring_exp_contention
         else if l_exprm cfg = ''mt'' then
           (if l_large cfg then Io_uring_exp_multithreads_large else Io_uring_exp_multithreads_small)
         else No_test)
      else if l_closed_loop cfg then (if l_large cfg then Large_blocking else Small_blocking)
      else if l_large cfg then
        (if l_aio cfg then Large_aio
         else if l_poll cfg then Large_io_uring_poll else Large_io_uring)
      else if l_aio cfg then Small_aio
      else if l_poll cfg then Not_implemented else Small_io_uring)"

text \<open>The figure \<^verbatim>\<open>N * buffer_size\<close> of the reports: the \<^verbatim>\<open>int\<close> is converted to \<^verbatim>\<open>size_t\<close>.\<close>

definition data_written :: "local_cfg \<Rightarrow> u64" where
  "data_written cfg = word_of_int (l_N cfg) * l_buffer_size cfg"

datatype local_report =
    Failed string         \<comment> \<open>the message of \<^verbatim>\<open>perror\<close>\<close>
  | Reported int u64      \<comment> \<open>the duration and \<^verbatim>\<open>N * buffer_size\<close>\<close>

section \<open>The blocking tests\<close>

definition local_buffer :: "local_cfg \<Rightarrow> byte list" where
  "local_buffer cfg = replicate (unat (l_buffer_size cfg)) 255"

text \<open>The loop of the large-file test: \<open>False\<close> when a write failed; a short write goes unnoticed.\<close>

primrec local_writes :: "'w posix \<Rightarrow> int \<Rightarrow> byte list \<Rightarrow> nat \<Rightarrow> 'w \<Rightarrow> bool \<times> 'w" where
  "local_writes px fd buff 0 w = (True, w)"
| "local_writes px fd buff (Suc n) w =
     (case px_write px fd buff w of (ret, w1) \<Rightarrow>
      if to_int32 ret < 0 then (False, w1) else local_writes px fd buff n w1)"

definition local_large_blocking :: "'w posix \<Rightarrow> local_cfg \<Rightarrow> 'w \<Rightarrow> local_report \<times> 'w" where
  "local_large_blocking px cfg w =
     (case px_open px ''/mnt/large-file'' [O_WRONLY, O_APPEND, O_CREAT, O_TRUNC, O_DIRECT] w of (fd, w1) \<Rightarrow>
      if fd < 0 then (Failed ''open'', w1)
      else case px_memalign px (l_blk_size cfg) (l_buffer_size cfg) w1 of (ret, w2) \<Rightarrow>
      if ret \<noteq> 0 then (Failed ''posix_memalign'', w2)
      else case px_now px w2 of (start, w3) \<Rightarrow>
      case local_writes px fd (local_buffer cfg) (nat (l_N cfg)) w3 of (ok, w4) \<Rightarrow>
      if \<not> ok then (Failed ''write'', w4)
      else case px_now px w4 of (t, w5) \<Rightarrow>
      case px_close px fd w5 of (_, w6) \<Rightarrow> (Reported (t - start) (data_written cfg), w6))"

definition small_file_name :: "int \<Rightarrow> string" where
  "small_file_name i = ''/mnt/small-file-'' @ to_string i"

text \<open>The loop of the small-file test, over the indices that are left: \<open>Some\<close> message on an error.\<close>

primrec local_small_loop ::
  "'w posix \<Rightarrow> byte list \<Rightarrow> nat list \<Rightarrow> 'w \<Rightarrow> string option \<times> 'w" where
  "local_small_loop px buff [] w = (None, w)"
| "local_small_loop px buff (i # js) w =
     (case px_open px (small_file_name (int i)) [O_RDWR, O_APPEND, O_CREAT, O_TRUNC, O_DIRECT] w of (fd, w1) \<Rightarrow>
      if fd < 0 then (Some ''open'', w1)
      else case px_write px fd buff w1 of (ret, w2) \<Rightarrow>
      if to_int32 ret < 0 then (Some ''write'', w2)
      else case px_close px fd w2 of (c, w3) \<Rightarrow>
      if c \<noteq> 0 then (Some ''close'', w3) else local_small_loop px buff js w3)"

definition local_small_blocking :: "'w posix \<Rightarrow> local_cfg \<Rightarrow> 'w \<Rightarrow> local_report \<times> 'w" where
  "local_small_blocking px cfg w =
     (case px_memalign px (l_blk_size cfg) (l_buffer_size cfg) w of (ret, w1) \<Rightarrow>
      if ret \<noteq> 0 then (Failed ''posix_memalign'', w1)
      else case px_now px w1 of (start, w2) \<Rightarrow>
      case local_small_loop px (local_buffer cfg) [0..<nat (l_N cfg)] w2 of (err, w3) \<Rightarrow>
      (case err of
         Some msg \<Rightarrow> (Failed msg, w3)
       | None \<Rightarrow> (case px_now px w3 of (t, w4) \<Rightarrow> (Reported (t - start) (data_written cfg), w4))))"

section \<open>The tests over io_uring\<close>

text \<open>
  An entry is a write to a descriptor at an offset (with \<^verbatim>\<open>O_APPEND\<close> the kernel ignores it) or the
  close that is linked to the write of the same iteration. An iteration either queues its entries,
  spins for an entry that nobody will free, or leaves the test.
\<close>

datatype lop = Lwrite int u64 | Lclose int

datatype attempt = Queued "lop list" | Spins | Leaves fault

datatype local_pc =
    Looping
  | Waiting                \<comment> \<open>in \<^verbatim>\<open>cq_thread.join()\<close>\<close>
  | Stuck                  \<comment> \<open>in \<^verbatim>\<open>while (!sqe)\<close>\<close>
  | Finished
  | Gave_up string         \<comment> \<open>an early \<^verbatim>\<open>return\<close> before \<^verbatim>\<open>cq_thread\<close> was started\<close>
  | Aborted fault

record local_state =
  lc_pc :: local_pc
  lc_i :: nat
  lc_ring :: "(nat \<times> lop) list"               \<comment> \<open>submitted, not completed; with the iteration\<close>
  lc_cq :: "((nat \<times> lop) \<times> int) list"         \<comment> \<open>completed, not reaped; with \<^verbatim>\<open>res\<close>\<close>
  lc_reaped :: "((nat \<times> lop) \<times> int) list"
  lc_quit :: bool                             \<comment> \<open>\<^verbatim>\<open>cq_thread\<close> returned early\<close>

text \<open>
  What distinguishes the tests: the number of iterations, what an iteration can do, how many
  completions \<^verbatim>\<open>cq_thread\<close> waits for, whether it returns on a failed completion (without marking it
  seen), and whether the test joins it.
\<close>

record local_test =
  t_N :: int
  t_try :: "nat \<Rightarrow> attempt \<Rightarrow> bool"
  t_expected :: int
  t_strict :: bool
  t_joins :: bool

definition lc_alive :: "local_state \<Rightarrow> bool" where
  "lc_alive s \<longleftrightarrow> lc_pc s \<in> {Looping, Waiting, Stuck}"

fun lc_startable :: "(nat \<times> lop) list \<Rightarrow> nat \<times> lop \<Rightarrow> bool" where
  "lc_startable ring (i, Lwrite fd off) = True"
| "lc_startable ring (i, Lclose fd) = (\<forall>(j, op) \<in> set ring. j = i \<longrightarrow> (\<exists>fd'. op = Lclose fd'))"

definition lc_start :: local_state where
  "lc_start = \<lparr>lc_pc = Looping, lc_i = 0, lc_ring = [], lc_cq = [], lc_reaped = [], lc_quit = False\<rparr>"

definition reap_one :: "bool \<Rightarrow> local_state \<Rightarrow> local_state" where
  "reap_one strict s = (case lc_cq s of
     [] \<Rightarrow> s
   | (op, res) # rest \<Rightarrow>
       if strict \<and> res < 0 then s\<lparr>lc_quit := True\<rparr>
       else s\<lparr>lc_cq := rest, lc_reaped := lc_reaped s @ [(op, res)]\<rparr>)"

text \<open>After the loop: the join, or the destructor of a thread that was never joined.\<close>

definition after_loop :: "local_test \<Rightarrow> local_state \<Rightarrow> local_state" where
  "after_loop T s = s\<lparr>lc_pc := if t_joins T then Waiting else Aborted Terminate\<rparr>"

inductive local_step :: "local_test \<Rightarrow> local_state \<Rightarrow> local_state \<Rightarrow> bool" for T where
  queue: "lc_pc s = Looping \<Longrightarrow> int (lc_i s) < t_N T \<Longrightarrow> t_try T (lc_i s) (Queued ops) \<Longrightarrow>
     local_step T s (s\<lparr>lc_ring := lc_ring s @ map (Pair (lc_i s)) ops, lc_i := Suc (lc_i s)\<rparr>)"
| spin: "lc_pc s = Looping \<Longrightarrow> int (lc_i s) < t_N T \<Longrightarrow> t_try T (lc_i s) Spins \<Longrightarrow>
     local_step T s (s\<lparr>lc_pc := Stuck\<rparr>)"
| leave: "lc_pc s = Looping \<Longrightarrow> int (lc_i s) < t_N T \<Longrightarrow> t_try T (lc_i s) (Leaves f) \<Longrightarrow>
     local_step T s (s\<lparr>lc_pc := Aborted f\<rparr>)"
| finish_loop: "lc_pc s = Looping \<Longrightarrow> t_N T \<le> int (lc_i s) \<Longrightarrow> local_step T s (after_loop T s)"
| complete: "lc_alive s \<Longrightarrow> lc_ring s = xs @ x # ys \<Longrightarrow> lc_startable (xs @ ys) x \<Longrightarrow>
     local_step T s (s\<lparr>lc_ring := xs @ ys, lc_cq := lc_cq s @ [(x, res)]\<rparr>)"
| reap: "lc_alive s \<Longrightarrow> \<not> lc_quit s \<Longrightarrow> int (length (lc_reaped s)) < t_expected T \<Longrightarrow> lc_cq s \<noteq> [] \<Longrightarrow>
     local_step T s (reap_one (t_strict T) s)"
| wait_fails: "lc_alive s \<Longrightarrow> \<not> lc_quit s \<Longrightarrow> int (length (lc_reaped s)) < t_expected T \<Longrightarrow>
     local_step T s (s\<lparr>lc_quit := True\<rparr>)"
| join: "lc_pc s = Waiting \<Longrightarrow> lc_quit s \<or> t_expected T \<le> int (length (lc_reaped s)) \<Longrightarrow>
     local_step T s (s\<lparr>lc_pc := Finished\<rparr>)"

inductive local_reachable :: "local_test \<Rightarrow> local_state \<Rightarrow> local_state \<Rightarrow> bool" for T s0 where
  start: "local_reachable T s0 s0"
| step: "local_reachable T s0 s \<Longrightarrow> local_step T s s' \<Longrightarrow> local_reachable T s0 s'"

inductive_cases local_stepE: "local_step T s s'"

subsection \<open>The individual tests\<close>

text \<open>
  The arguments \<open>ret\<close>, \<open>fd\<close>, \<open>reg\<close> and \<open>mem\<close> are the results of \<^verbatim>\<open>io_uring_queue_init_params\<close>,
  \<^verbatim>\<open>open\<close>, \<^verbatim>\<open>io_uring_register_files\<close> and \<^verbatim>\<open>posix_memalign\<close>. A \<^verbatim>\<open>return\<close> before the thread is
  started only leaves the test; a later one destroys a joinable thread.
\<close>

definition gave_up :: "string \<Rightarrow> local_state" where
  "gave_up msg = lc_start\<lparr>lc_pc := Gave_up msg\<rparr>"

definition aborted :: "fault \<Rightarrow> local_state" where
  "aborted f = lc_start\<lparr>lc_pc := Aborted f\<rparr>"

text \<open>Poll mode: the kernel's thread drains the submission queue, so that the spin for an entry ends.\<close>

definition poll_start :: "int \<Rightarrow> int \<Rightarrow> int \<Rightarrow> int \<Rightarrow> local_state" where
  "poll_start ret fd reg mem =
     (if ret \<noteq> 0 then gave_up ''Unable to setup io_uring''
      else if fd < 0 then gave_up ''Error open file''
      else if reg \<noteq> 0 then gave_up ''Error registering files''
      else if mem \<noteq> 0 then gave_up ''posix_memalign''
      else lc_start)"

text \<open>\<open>ret\<close> is what \<^verbatim>\<open>io_uring_sqring_wait\<close> returns; the write goes to registered file 0.\<close>

definition poll_attempt :: "int \<Rightarrow> attempt" where
  "poll_attempt ret = (if ret \<noteq> 0 then Leaves Terminate else Queued [Lwrite 0 0])"

definition poll_test :: "int set \<Rightarrow> local_cfg \<Rightarrow> local_test" where
  "poll_test env cfg = \<lparr>t_N = l_N cfg, t_try = (\<lambda>i a. \<exists>ret \<in> env. a = poll_attempt ret),
     t_expected = l_N cfg, t_strict = True, t_joins = True\<rparr>"

text \<open>\<^verbatim>\<open>test_large_io_uring\<close>: the call of \<^verbatim>\<open>cq_thread.join()\<close> is commented out.\<close>

definition local_filesize :: u64 where
  "local_filesize = 10 * 1024 * 1024 * 1024"

definition large_offset :: "local_cfg \<Rightarrow> nat \<Rightarrow> u64" where
  "large_offset cfg i = (word_of_int (int i) * l_buffer_size cfg) mod local_filesize"

definition large_uring_start :: "int \<Rightarrow> int \<Rightarrow> int \<Rightarrow> local_state" where
  "large_uring_start ret fd mem =
     (if ret \<noteq> 0 then gave_up ''Unable to setup io_uring''
      else if fd < 0 then gave_up ''Error open file''
      else if mem \<noteq> 0 then gave_up ''posix_memalign''
      else lc_start)"

definition large_attempt :: "local_cfg \<Rightarrow> int \<Rightarrow> bool \<Rightarrow> nat \<Rightarrow> attempt" where
  "large_attempt cfg fd sqe_ok i =
     (if \<not> sqe_ok then Leaves Terminate else Queued [Lwrite fd (large_offset cfg i)])"

definition large_uring_test :: "bool set \<Rightarrow> local_cfg \<Rightarrow> int \<Rightarrow> local_test" where
  "large_uring_test env cfg fd = \<lparr>t_N = l_N cfg,
     t_try = (\<lambda>i a. \<exists>sqe_ok \<in> env. a = large_attempt cfg fd sqe_ok i),
     t_expected = l_N cfg, t_strict = False, t_joins = False\<rparr>"

text \<open>
  \<^verbatim>\<open>test_small_io_uring\<close>: \<open>fd_of i\<close> is what the open of file \<open>i\<close> returned, \<open>room\<close> the number of free
  submission entries, of which two are taken before the next submit. The bound \<^verbatim>\<open>2 * N\<close> is an \<^verbatim>\<open>int\<close>.
\<close>

definition small_uring_start :: "local_cfg \<Rightarrow> int \<Rightarrow> int \<Rightarrow> local_state" where
  "small_uring_start cfg ret mem =
     (if ret \<noteq> 0 then gave_up ''Unable to setup io_uring''
      else if mem \<noteq> 0 then gave_up ''posix_memalign''
      else if \<not> is_int (2 * l_N cfg) then aborted Signed_overflow
      else lc_start)"

definition small_attempt :: "int \<Rightarrow> nat \<Rightarrow> attempt" where
  "small_attempt fd room =
     (if fd < 0 then Leaves Terminate
      else if room < 2 then Spins
      else Queued [Lwrite fd 0, Lclose fd])"

definition small_uring_test :: "nat set \<Rightarrow> local_cfg \<Rightarrow> (nat \<Rightarrow> int) \<Rightarrow> local_test" where
  "small_uring_test env cfg fd_of = \<lparr>t_N = l_N cfg,
     t_try = (\<lambda>i a. \<exists>room \<in> env. a = small_attempt (fd_of i) room),
     t_expected = 2 * l_N cfg, t_strict = False, t_joins = True\<rparr>"

text \<open>
  \<^verbatim>\<open>test_io_uring_exp_contention\<close>, and each thread of \<^verbatim>\<open>test_io_uring_exp_multithreads_large\<close>: the
  files, opened after the thread was started, are written in turn.
\<close>

definition contention_names :: "int \<Rightarrow> string list" where
  "contention_names n_files = map (\<lambda>i. ''/mnt/large-file-'' @ to_string (int i)) [0..<nat n_files]"

definition contention_start :: "int \<Rightarrow> int \<Rightarrow> int \<Rightarrow> int list \<Rightarrow> local_state" where
  "contention_start ret mem n_files fds =
     (if ret \<noteq> 0 then gave_up ''Unable to setup io_uring''
      else if mem \<noteq> 0 then gave_up ''posix_memalign''
      else if n_files < 0 then aborted Bad_alloc
      else if \<exists>fd \<in> set fds. fd < 0 then aborted Terminate
      else lc_start)"

definition contention_attempt :: "int list \<Rightarrow> bool \<Rightarrow> nat \<Rightarrow> attempt" where
  "contention_attempt fds sqe_ok i =
     (if \<not> sqe_ok then Spins
      else case c_rem (int i) (int (length fds)) of
        Inl f \<Rightarrow> Leaves f
      | Inr k \<Rightarrow> Queued [Lwrite (fds ! nat k) 0])"

definition contention_test :: "bool set \<Rightarrow> local_cfg \<Rightarrow> int list \<Rightarrow> local_test" where
  "contention_test env cfg fds = \<lparr>t_N = l_N cfg,
     t_try = (\<lambda>i a. \<exists>sqe_ok \<in> env. a = contention_attempt fds sqe_ok i),
     t_expected = l_N cfg, t_strict = False, t_joins = True\<rparr>"

section \<open>The invariant of the ring\<close>

definition all_entries :: "(nat \<Rightarrow> lop list) \<Rightarrow> nat \<Rightarrow> (nat \<times> lop) list" where
  "all_entries ent n = concat (map (\<lambda>i. map (Pair i) (ent i)) [0..<n])"

lemma all_entries_simps [simp]:
  "all_entries ent 0 = []" "all_entries ent (Suc n) = all_entries ent n @ map (Pair n) (ent n)"
  by (simp_all add: all_entries_def)

definition local_accounted :: "(nat \<Rightarrow> lop list) \<Rightarrow> local_state \<Rightarrow> bool" where
  "local_accounted ent s \<longleftrightarrow>
     mset (lc_ring s) + mset (map fst (lc_cq s)) + mset (map fst (lc_reaped s)) =
       mset (all_entries ent (lc_i s))"

definition local_inv :: "local_test \<Rightarrow> (nat \<Rightarrow> lop list) \<Rightarrow> local_state \<Rightarrow> bool" where
  "local_inv T ent s \<longleftrightarrow>
     local_accounted ent s \<and> int (lc_i s) \<le> max 0 (t_N T) \<and>
     (lc_pc s = Waiting \<or> lc_pc s = Finished \<longrightarrow> t_joins T \<and> t_N T \<le> int (lc_i s)) \<and>
     (lc_pc s = Finished \<longrightarrow> lc_quit s \<or> t_expected T \<le> int (length (lc_reaped s)))"

lemma local_inv_start: "local_inv T ent lc_start"
  by (simp add: local_inv_def local_accounted_def lc_start_def)

text \<open>What the tests share: an iteration that queues anything queues the entries of its index.\<close>

locale local_ring =
  fixes T :: local_test and ent :: "nat \<Rightarrow> lop list" and width :: nat
  assumes try_queued: "t_try T i (Queued ops) \<Longrightarrow> ops = ent i"
    and ent_width: "length (ent i) = width"
begin

lemma all_entries_length: "length (all_entries ent n) = width * n"
  by (induction n) (simp_all add: ent_width)

lemma step_inv: "local_step T s s' \<Longrightarrow> local_inv T ent s \<Longrightarrow> local_inv T ent s'"
proof (erule local_stepE)
  fix ops
  assume "local_inv T ent s" "t_try T (lc_i s) (Queued ops)" "int (lc_i s) < t_N T" "lc_pc s = Looping"
    "s' = s\<lparr>lc_ring := lc_ring s @ map (Pair (lc_i s)) ops, lc_i := Suc (lc_i s)\<rparr>"
  with try_queued [of "lc_i s" ops] show ?thesis by (auto simp: local_inv_def local_accounted_def add.assoc)
qed (auto simp: local_inv_def local_accounted_def after_loop_def reap_one_def lc_alive_def split: list.splits)

lemma reachable_inv: "local_reachable T s0 s \<Longrightarrow> local_inv T ent s0 \<Longrightarrow> local_inv T ent s"
  by (induction rule: local_reachable.induct) (auto intro: step_inv)

lemma finished_complete:
  assumes "local_reachable T lc_start s" and fin: "lc_pc s = Finished" and "\<not> lc_quit s"
    and exp: "t_expected T = int width * t_N T" and "0 \<le> t_N T"
  shows "mset (map fst (lc_reaped s)) = mset (all_entries ent (nat (t_N T)))"
    and "lc_ring s = []" and "lc_cq s = []"
proof -
  have inv: "local_inv T ent s" by (rule reachable_inv [OF assms(1) local_inv_start])
  then have i: "lc_i s = nat (t_N T)" using fin assms(5) by (auto simp: local_inv_def)
  have acc: "mset (lc_ring s) + mset (map fst (lc_cq s)) + mset (map fst (lc_reaped s)) =
      mset (all_entries ent (nat (t_N T)))" using inv i by (simp add: local_inv_def local_accounted_def)
  then have "size (mset (lc_ring s) + mset (map fst (lc_cq s)) + mset (map fst (lc_reaped s))) =
      size (mset (all_entries ent (nat (t_N T))))" by simp
  then have "length (lc_ring s) + length (lc_cq s) + length (lc_reaped s) = width * nat (t_N T)"
    by (simp add: all_entries_length)
  moreover have "int width * t_N T \<le> int (length (lc_reaped s))"
    using inv fin assms(3) exp by (auto simp: local_inv_def)
  then have "width * nat (t_N T) \<le> length (lc_reaped s)"
    using assms(5) by (metis of_nat_le_iff of_nat_mult int_nat_eq)
  ultimately have "length (lc_ring s) = 0 \<and> length (lc_cq s) = 0" by linarith
  then show "lc_ring s = []" and "lc_cq s = []" by auto
  with acc show "mset (map fst (lc_reaped s)) = mset (all_entries ent (nat (t_N T)))" by simp
qed

lemma unjoined_never_finishes:
  assumes "local_reachable T lc_start s" and "\<not> t_joins T"
  shows "lc_pc s \<noteq> Finished" and "lc_pc s \<noteq> Waiting"
  using reachable_inv [OF assms(1) local_inv_start] assms(2) by (auto simp: local_inv_def)

end

interpretation poll_ring: local_ring "poll_test env cfg" "\<lambda>_. [Lwrite 0 0]" 1
  by unfold_locales (auto simp: poll_test_def poll_attempt_def split: if_splits)

interpretation large_ring: local_ring "large_uring_test env cfg fd" "\<lambda>i. [Lwrite fd (large_offset cfg i)]" 1
  by unfold_locales (auto simp: large_uring_test_def large_attempt_def split: if_splits)

interpretation small_ring: local_ring "small_uring_test env cfg fd_of" "\<lambda>i. [Lwrite (fd_of i) 0, Lclose (fd_of i)]" 2
  by unfold_locales (auto simp: small_uring_test_def small_attempt_def split: if_splits)

interpretation contention_ring: local_ring "contention_test env cfg fds" "\<lambda>i. [Lwrite (fds ! (i mod length fds)) 0]" 1
proof unfold_locales
  fix i ops
  assume t: "t_try (contention_test env cfg fds) i (Queued ops)"
  then obtain k where k: "c_rem (int i) (int (length fds)) = Inr k" and ops: "ops = [Lwrite (fds ! nat k) 0]"
    by (auto simp: contention_test_def contention_attempt_def split: if_splits sum.splits)
  from k have "0 < length fds" and "k = int i smod int (length fds)"
    by (auto simp: c_rem_def split: if_splits)
  then have "nat k = i mod length fds" by (simp add: smod_pos flip: zmod_int)
  with ops show "ops = [Lwrite (fds ! (i mod length fds)) 0]" by simp
qed simp

section \<open>Several threads\<close>

text \<open>
  \<^verbatim>\<open>test_io_uring_exp_multithreads_large\<close>: every thread runs the contention test on a ring and on
  files of its own; an abort of one thread ends the process, and the test ends when all threads have
  returned.
\<close>

definition mt_names :: "int \<Rightarrow> int \<Rightarrow> string list" where
  "mt_names numthreads n_files = concat (map (\<lambda>nonce. expr_names (int nonce) n_files) [0..<nat numthreads])"

inductive mt_step :: "(nat \<Rightarrow> local_test) \<Rightarrow> local_state list \<Rightarrow> local_state list \<Rightarrow> bool" for T where
  thread: "i < length ss \<Longrightarrow> \<forall>s \<in> set ss. \<forall>f. lc_pc s \<noteq> Aborted f \<Longrightarrow> local_step (T i) (ss ! i) s' \<Longrightarrow>
     mt_step T ss (ss[i := s'])"

inductive mt_reachable :: "(nat \<Rightarrow> local_test) \<Rightarrow> local_state list \<Rightarrow> local_state list \<Rightarrow> bool" for T ss0 where
  start: "mt_reachable T ss0 ss0"
| step: "mt_reachable T ss0 ss \<Longrightarrow> mt_step T ss ss' \<Longrightarrow> mt_reachable T ss0 ss'"

definition mt_joined :: "local_state list \<Rightarrow> bool" where
  "mt_joined ss \<longleftrightarrow> (\<forall>s \<in> set ss. lc_pc s = Finished \<or> (\<exists>msg. lc_pc s = Gave_up msg))"

lemma mt_thread_reachable:
  assumes "mt_reachable T ss0 ss"
  shows "length ss = length ss0 \<and> (\<forall>i < length ss0. local_reachable (T i) (ss0 ! i) (ss ! i))"
  using assms
proof induction
  case (step ss ss')
  from step.hyps(2) step.IH show ?case
    by cases (auto simp: nth_list_update intro: local_reachable.step)
qed (simp add: local_reachable.start)

section \<open>The file system under the blocking tests\<close>

text \<open>The part of \<open>fs_law\<close> that concerns the kernel alone.\<close>

definition posix_law :: "'w posix \<Rightarrow> ('w \<Rightarrow> fview) \<Rightarrow> bool" where
  "posix_law px fv \<longleftrightarrow>
     (\<forall>w t w'. px_now px w = (t, w') \<longrightarrow> fv w' = fv w) \<and>
     (\<forall>name flags w fd w'. px_open px name flags w = (fd, w') \<longrightarrow>
        0 \<le> fd \<and> fv_fds (fv w) fd = None \<and> fv w' = open_view name flags fd (fv w)) \<and>
     (\<forall>a n w e w'. px_memalign px a n w = (e, w') \<longrightarrow> valid_align a \<longrightarrow>
        e = 0 \<and> fv w' = (fv w)\<lparr>fv_live := Suc (fv_live (fv w))\<rparr>) \<and>
     (\<forall>fd buf w name n w'. px_write px fd buf w = (n, w') \<longrightarrow>
        fv_fds (fv w) fd = Some name \<longrightarrow> length buf \<le> RW_MAX \<longrightarrow>
        n = int (length buf) \<and> fv w' = append_view name buf (fv w)) \<and>
     (\<forall>fd w c w'. px_close px fd w = (c, w') \<longrightarrow>
        c = 0 \<and> fv w' = (fv w)\<lparr>fv_fds := (fv_fds (fv w))(fd := None)\<rparr>)"

lemma fs_law_posix: "fs_law px st fv \<Longrightarrow> posix_law px fv"
  unfolding fs_law_def posix_law_def by (elim conjE, intro conjI; assumption)

lemma posix_lawD:
  assumes "posix_law px fv"
  shows "px_now px w = (t, w') \<Longrightarrow> fv w' = fv w"
    and "px_open px name flags w = (fd, w') \<Longrightarrow>
       0 \<le> fd \<and> fv_fds (fv w) fd = None \<and> fv w' = open_view name flags fd (fv w)"
    and "px_memalign px a n w = (e, w') \<Longrightarrow> valid_align a \<Longrightarrow>
       e = 0 \<and> fv w' = (fv w)\<lparr>fv_live := Suc (fv_live (fv w))\<rparr>"
    and "px_write px fd buf w = (k, w') \<Longrightarrow> fv_fds (fv w) fd = Some name \<Longrightarrow> length buf \<le> RW_MAX \<Longrightarrow>
       k = int (length buf) \<and> fv w' = append_view name buf (fv w)"
    and "px_close px fd w = (c, w') \<Longrightarrow>
       c = 0 \<and> fv w' = (fv w)\<lparr>fv_fds := (fv_fds (fv w))(fd := None)\<rparr>"
  using assms unfolding posix_law_def by metis+

definition wf_local :: "local_cfg \<Rightarrow> bool" where
  "wf_local cfg \<longleftrightarrow> valid_align (l_blk_size cfg) \<and> unat (l_buffer_size cfg) \<le> RW_MAX"

lemma local_writes_effect:
  assumes law: "posix_law px fv" and len: "length buff \<le> RW_MAX"
  shows "fv_fds (fv w) fd = Some name \<Longrightarrow> fv_files (fv w) name = Some c \<Longrightarrow>
    \<exists>w'. local_writes px fd buff n w = (True, w') \<and>
      fv w' = (fv w)\<lparr>fv_files := (fv_files (fv w))(name \<mapsto> c @ concat (replicate n buff))\<rparr>"
proof (induction n arbitrary: w c)
  case 0
  then have "(fv_files (fv w))(name \<mapsto> c) = fv_files (fv w)" by (auto simp: fun_eq_iff)
  then show ?case by (intro exI [of _ w] conjI fview.equality) simp_all
next
  case (Suc n)
  obtain k w1 where c: "px_write px fd buff w = (k, w1)" by (metis prod.exhaust)
  have k: "k = int (length buff)" and v: "fv w1 = append_view name buff (fv w)"
    using posix_lawD(4) [OF law c Suc.prems(1) len] by auto
  have "fv_fds (fv w1) fd = Some name" "fv_files (fv w1) name = Some (c @ buff)"
    using Suc.prems by (simp_all add: v append_view_def)
  from Suc.IH [OF this] obtain w' where
    r: "local_writes px fd buff n w1 = (True, w')" and
    v': "fv w' = (fv w1)\<lparr>fv_files := (fv_files (fv w1))(name \<mapsto> (c @ buff) @ concat (replicate n buff))\<rparr>" by blast
  have "fv w' = (fv w)\<lparr>fv_files := (fv_files (fv w))(name \<mapsto> c @ concat (replicate (Suc n) buff))\<rparr>"
    by (rule fview.equality) (simp_all add: v' v append_view_def Suc.prems(2))
  moreover have "local_writes px fd buff (Suc n) w = (True, w')" using c k r rw_result [OF len] by simp
  ultimately show ?case by blast
qed

lemma local_small_effect:
  assumes law: "posix_law px fv" and len: "length buff \<le> RW_MAX"
  shows "\<exists>w'. local_small_loop px buff js w = (None, w') \<and>
      fv w' = (fv w)\<lparr>fv_files := (\<lambda>name. if name \<in> small_file_name ` int ` set js
         then Some buff else fv_files (fv w) name)\<rparr>"
proof (induction js arbitrary: w)
  case (Cons i js)
  let ?fl = "[O_RDWR, O_APPEND, O_CREAT, O_TRUNC, O_DIRECT]" and ?name = "small_file_name (int i)"
  obtain fd w1 where c1: "px_open px ?name ?fl w = (fd, w1)" by (metis prod.exhaust)
  obtain n w2 where c2: "px_write px fd buff w1 = (n, w2)" by (metis prod.exhaust)
  obtain c w3 where c3: "px_close px fd w2 = (c, w3)" by (metis prod.exhaust)
  have fd: "0 \<le> fd" "fv_fds (fv w) fd = None" and v1: "fv w1 = open_view ?name ?fl fd (fv w)"
    using posix_lawD(2) [OF law c1] by auto
  have n: "n = int (length buff)" and v2: "fv w2 = append_view ?name buff (fv w1)"
    using posix_lawD(4) [OF law c2 _ len, of ?name] v1 by (auto simp: open_view_def)
  have c: "c = 0" and v3: "fv w3 = (fv w2)\<lparr>fv_fds := (fv_fds (fv w2))(fd := None)\<rparr>"
    using posix_lawD(5) [OF law c3] by auto
  have "fv w3 = (fv w)\<lparr>fv_files := (fv_files (fv w))(?name \<mapsto> buff)\<rparr>"
    using fd by (intro fview.equality) (auto simp: v3 v2 v1 append_view_def open_view_def fun_eq_iff)
  moreover obtain w' where "local_small_loop px buff js w3 = (None, w')" and
    "fv w' = (fv w3)\<lparr>fv_files := (\<lambda>name. if name \<in> small_file_name ` int ` set js
         then Some buff else fv_files (fv w3) name)\<rparr>" using Cons.IH by blast
  ultimately show ?case using c1 c2 c3 fd n c rw_result [OF len]
    by (auto intro!: fview.equality)
qed simp

section \<open>Properties\<close>

definition sample_local :: local_cfg where
  "sample_local = (local_cfg_of default_options)\<lparr>l_N := 3, l_buffer_size := 2\<rparr>"

lemma sample_local_wf: "wf_local sample_local"
proof -
  have "valid_align 4096" unfolding valid_align_def by (rule bexI [of _ 12]) simp_all
  then show ?thesis by (simp add: wf_local_def sample_local_def local_cfg_of_def default_options_def)
qed

lemma sample_local_simps [simp]:
  "l_N sample_local = 3" "l_buffer_size sample_local = 2" "data_written sample_local = 6"
  "local_buffer sample_local = [255, 255]" "l_queue_depth sample_local = 128" "l_fn sample_local = 1"
proof -
  have "replicate 2 (255 :: byte) = [255, 255]" by (simp only: numeral_2_eq_2 replicate.simps)
  then show "local_buffer sample_local = [255, 255]"
    by (simp add: sample_local_def local_buffer_def)
qed (simp_all add: sample_local_def data_written_def local_cfg_of_def default_options_def)

text \<open>the local blocking test on one large file, on a file system with room: it reports, and
  \<^verbatim>\<open>/mnt/large-file\<close>, truncated first, then holds exactly \<^verbatim>\<open>N\<close> buffers of the fill byte; no other file
  changed and no descriptor is left open.\<close>

theorem local_large_contents:
  assumes law: "posix_law px fv" and wf: "wf_local cfg"
  shows "\<exists>t w'. local_large_blocking px cfg w = (Reported t (data_written cfg), w') \<and>
     fv_files (fv w') = (fv_files (fv w))(''/mnt/large-file'' \<mapsto>
       replicate (nat (l_N cfg) * unat (l_buffer_size cfg)) 255) \<and>
     fv_fds (fv w') = fv_fds (fv w)"
proof -
  let ?name = "''/mnt/large-file''" and ?fl = "[O_WRONLY, O_APPEND, O_CREAT, O_TRUNC, O_DIRECT]"
  note l = posix_lawD [OF law]
  obtain fd w1 where c1: "px_open px ?name ?fl w = (fd, w1)" by (metis prod.exhaust)
  obtain e w2 where c2: "px_memalign px (l_blk_size cfg) (l_buffer_size cfg) w1 = (e, w2)" by (metis prod.exhaust)
  obtain t0 w3 where c3: "px_now px w2 = (t0, w3)" by (metis prod.exhaust)
  have fd: "0 \<le> fd" "fv_fds (fv w) fd = None" and v1: "fv w1 = open_view ?name ?fl fd (fv w)"
    using l(2) [OF c1] by auto
  have e: "e = 0" and v3: "fv w3 = (fv w1)\<lparr>fv_live := Suc (fv_live (fv w1))\<rparr>"
    using l(3) [OF c2] l(1) [OF c3] wf by (auto simp: wf_local_def)
  have len: "length (local_buffer cfg) \<le> RW_MAX" using wf by (simp add: local_buffer_def wf_local_def)
  obtain w4 where c4: "local_writes px fd (local_buffer cfg) (nat (l_N cfg)) w3 = (True, w4)" and
    v4: "fv w4 = (fv w3)\<lparr>fv_files := (fv_files (fv w3))(?name \<mapsto>
       [] @ concat (replicate (nat (l_N cfg)) (local_buffer cfg)))\<rparr>"
    using local_writes_effect [OF law len, of w3 fd ?name "[]" "nat (l_N cfg)"] v3 v1
    by (auto simp: open_view_def)
  obtain t1 w5 where c5: "px_now px w4 = (t1, w5)" by (metis prod.exhaust)
  obtain c w6 where c6: "px_close px fd w5 = (c, w6)" by (metis prod.exhaust)
  have v6: "fv w6 = (fv w4)\<lparr>fv_fds := (fv_fds (fv w4))(fd := None)\<rparr>"
    using l(1) [OF c5] l(5) [OF c6] by simp
  have "concat (replicate n (local_buffer cfg)) = replicate (n * unat (l_buffer_size cfg)) 255" for n
    by (induction n) (simp_all add: local_buffer_def replicate_add)
  moreover have "local_large_blocking px cfg w = (Reported (t1 - t0) (data_written cfg), w6)"
    using fd(1) e by (simp add: local_large_blocking_def c1 c2 c3 c4 c5 c6)
  ultimately show ?thesis using fd(2)
    by (intro exI [of _ "t1 - t0"] exI [of _ w6]) (auto simp: v6 v4 v3 v1 open_view_def fun_eq_iff)
qed

theorem local_large_contents_witness:
  "\<exists>t w'. local_large_blocking memfs_px sample_local (memfs_of []) = (Reported t 6, w') \<and>
     mf_files w' ''/mnt/large-file'' = Some (replicate 6 255)"
proof -
  from local_large_contents [OF fs_law_posix [OF memfs_law] sample_local_wf, of "memfs_of []"] obtain t w' where
    "local_large_blocking memfs_px sample_local (memfs_of []) = (Reported t (data_written sample_local), w')" and
    "mf_files w' = (mf_files (memfs_of []))(''/mnt/large-file'' \<mapsto>
       replicate (nat (l_N sample_local) * unat (l_buffer_size sample_local)) 255)"
    by (auto simp: memfs_view_def)
  then show ?thesis by (intro exI [of _ t] exI [of _ w']) simp
qed

text \<open>the local blocking test on small files, on a file system with room: it reports, each of the
  files \<^verbatim>\<open>/mnt/small-file-0\<close> to \<^verbatim>\<open>/mnt/small-file-(N-1)\<close> holds exactly one buffer, whatever it held
  before, no other file changed and no descriptor is left open.\<close>

theorem local_small_contents:
  assumes law: "posix_law px fv" and wf: "wf_local cfg"
  shows "\<exists>t w'. local_small_blocking px cfg w = (Reported t (data_written cfg), w') \<and>
     fv_files (fv w') = (\<lambda>name. if \<exists>i. 0 \<le> i \<and> i < l_N cfg \<and> name = small_file_name i
       then Some (local_buffer cfg) else fv_files (fv w) name) \<and>
     fv_fds (fv w') = fv_fds (fv w)"
proof -
  note l = posix_lawD [OF law]
  obtain e w1 where c1: "px_memalign px (l_blk_size cfg) (l_buffer_size cfg) w = (e, w1)" by (metis prod.exhaust)
  obtain t0 w2 where c2: "px_now px w1 = (t0, w2)" by (metis prod.exhaust)
  have e: "e = 0" and v2: "fv w2 = (fv w)\<lparr>fv_live := Suc (fv_live (fv w))\<rparr>"
    using l(3) [OF c1] l(1) [OF c2] wf by (auto simp: wf_local_def)
  have files2: "fv_files (fv w2) = fv_files (fv w)" by (simp add: v2)
  have len: "length (local_buffer cfg) \<le> RW_MAX" using wf by (simp add: local_buffer_def wf_local_def)
  obtain w3 where c3: "local_small_loop px (local_buffer cfg) [0..<nat (l_N cfg)] w2 = (None, w3)" and
    v3: "fv w3 = (fv w2)\<lparr>fv_files := (\<lambda>name. if name \<in> small_file_name ` int ` set [0..<nat (l_N cfg)]
         then Some (local_buffer cfg) else fv_files (fv w2) name)\<rparr>"
    using local_small_effect [OF law len] by blast
  obtain t1 w4 where c4: "px_now px w3 = (t1, w4)" by (metis prod.exhaust)
  have "name \<in> small_file_name ` int ` set [0..<nat (l_N cfg)] \<longleftrightarrow>
      (\<exists>i. 0 \<le> i \<and> i < l_N cfg \<and> name = small_file_name i)" for name
  proof -
    have "int ` set [0..<nat (l_N cfg)] = {0..<l_N cfg}"
      by (cases "0 \<le> l_N cfg") (simp_all add: image_int_atLeastLessThan)
    then show ?thesis by auto
  qed
  then have "fv_files (fv w4) = (\<lambda>name. if \<exists>i. 0 \<le> i \<and> i < l_N cfg \<and> name = small_file_name i
       then Some (local_buffer cfg) else fv_files (fv w) name)"
    using l(1) [OF c4] files2 by (auto simp: v3 fun_eq_iff simp del: set_upt)
  moreover have "fv_fds (fv w4) = fv_fds (fv w)" using l(1) [OF c4] by (simp add: v3 v2)
  moreover have "local_small_blocking px cfg w = (Reported (t1 - t0) (data_written cfg), w4)"
    using e by (simp add: local_small_blocking_def c1 c2 c3 c4 del: set_upt)
  ultimately show ?thesis by blast
qed

theorem local_small_contents_witness:
  "\<exists>t w'. local_small_blocking memfs_px sample_local (memfs_of []) = (Reported t 6, w') \<and>
     mf_files w' ''/mnt/small-file-2'' = Some [255, 255] \<and> mf_files w' ''/mnt/small-file-3'' = None"
proof -
  from local_small_contents [OF fs_law_posix [OF memfs_law] sample_local_wf, of "memfs_of []"] obtain t w' where
    r: "local_small_blocking memfs_px sample_local (memfs_of []) = (Reported t (data_written sample_local), w')" and
    v: "fv_files (memfs_view w') = (\<lambda>name. if \<exists>i. 0 \<le> i \<and> i < l_N sample_local \<and> name = small_file_name i
       then Some (local_buffer sample_local) else fv_files (memfs_view (memfs_of [])) name)"
    by blast
  then have f: "mf_files w' name = (if \<exists>i. 0 \<le> i \<and> i < l_N sample_local \<and> name = small_file_name i
       then Some (local_buffer sample_local) else None)" for name
    unfolding memfs_view_def memfs_of_def by (metis (no_types, lifting) fview.select_convs(1) memfs.select_convs(2))
  have n2: "''/mnt/small-file-2'' = small_file_name 2" and n3: "''/mnt/small-file-3'' = small_file_name 3"
    by code_simp+
  have inj: "small_file_name i = small_file_name j \<longleftrightarrow> i = j" for i j by (simp add: small_file_name_def)
  have "mf_files w' (small_file_name 2) = Some [255, 255] \<and> mf_files w' (small_file_name 3) = None"
    by (auto simp: f inj)
  with r show ?thesis unfolding n2 n3 by (intro exI [of _ t] exI [of _ w']) simp
qed

lemma distinct_nth_mod:
  assumes "distinct fds" and "j < length fds"
  shows "fds ! (i mod length fds) = fds ! j \<longleftrightarrow> i mod length fds = j"
proof -
  have "i mod length fds < length fds" using assms(2) by (intro mod_less_divisor) linarith
  then show ?thesis using assms by (simp add: nth_eq_iff_index_eq)
qed

lemma in_turn_count:
  assumes "distinct fds" and "j < length fds"
  shows "length (filter (\<lambda>x. snd x = Lwrite (fds ! j) off)
      (all_entries (\<lambda>i. [Lwrite (fds ! (i mod length fds)) off]) n)) = (n + (length fds - 1 - j)) div length fds"
proof -
  have "length (filter (\<lambda>x. snd x = Lwrite (fds ! j) off)
      (all_entries (\<lambda>i. [Lwrite (fds ! (i mod length fds)) off]) n)) =
      length (filter (\<lambda>i. i mod length fds = j) [0..<n])"
    by (induction n) (simp_all add: distinct_nth_mod [OF assms])
  then show ?thesis by (simp add: turns_count [OF assms(2)])
qed

text \<open>The completions that a finished contention test reaped, per file.\<close>

definition completed_on :: "int \<Rightarrow> local_state \<Rightarrow> nat" where
  "completed_on fd s = length (filter (\<lambda>(x, res). snd x = Lwrite fd 0) (lc_reaped s))"

lemma contention_share:
  assumes run: "local_reachable (contention_test env cfg fds) lc_start s" and fin: "lc_pc s = Finished"
    and quit: "\<not> lc_quit s" and N: "0 \<le> l_N cfg" and fds: "distinct fds" "j < length fds"
  shows "completed_on (fds ! j) s = (nat (l_N cfg) + (length fds - 1 - j)) div length fds"
proof -
  have "t_expected (contention_test env cfg fds) = int 1 * t_N (contention_test env cfg fds)"
    and n: "t_N (contention_test env cfg fds) = l_N cfg" by (simp_all add: contention_test_def)
  from contention_ring.finished_complete(1) [OF run fin quit this(1)] N n have m:
    "mset (map fst (lc_reaped s)) = mset (all_entries (\<lambda>i. [Lwrite (fds ! (i mod length fds)) 0]) (nat (l_N cfg)))"
    by simp
  have "completed_on (fds ! j) s = length (filter (\<lambda>x. snd x = Lwrite (fds ! j) 0) (map fst (lc_reaped s)))"
    by (simp add: completed_on_def filter_map comp_def case_prod_unfold)
  also have "\<dots> = size (filter_mset (\<lambda>x. snd x = Lwrite (fds ! j) 0) (mset (map fst (lc_reaped s))))"
    by (simp only: mset_filter [symmetric] size_mset)
  also have "\<dots> = length (filter (\<lambda>x. snd x = Lwrite (fds ! j) 0)
      (all_entries (\<lambda>i. [Lwrite (fds ! (i mod length fds)) 0]) (nat (l_N cfg))))"
    by (simp only: m mset_filter [symmetric] size_mset)
  finally show ?thesis by (simp add: in_turn_count [OF fds])
qed

text \<open>C39: \<^verbatim>\<open>test_io_uring_exp_contention\<close>: in every interleaving of the submitting thread, the kernel and
  the completion thread, when the test finishes and no wait on the ring failed, every write has
  completed and was reaped exactly once, and of the \<^verbatim>\<open>N\<close> writes file \<open>j\<close> of \<open>k\<close> received
  \<open>(N + (k - 1 - j)) div k\<close>: the shares of two files differ by at most one.\<close>

theorem local_contention_share:
  assumes "local_reachable (contention_test env cfg fds) (contention_start 0 0 (l_fn cfg) fds) s"
    and "lc_pc s = Finished" and "\<not> lc_quit s" and "0 \<le> l_N cfg"
    and "0 \<le> l_fn cfg" and "\<forall>fd \<in> set fds. 0 \<le> fd" and "distinct fds" and "j < length fds"
  shows "completed_on (fds ! j) s = (nat (l_N cfg) + (length fds - 1 - j)) div length fds
     \<and> lc_ring s = [] \<and> lc_cq s = []"
proof -
  have "contention_start 0 0 (l_fn cfg) fds = lc_start"
    using assms(5,6) by (auto simp: contention_start_def)
  then have run: "local_reachable (contention_test env cfg fds) lc_start s" using assms(1) by simp
  have e: "t_expected (contention_test env cfg fds) = int 1 * t_N (contention_test env cfg fds)"
    and n: "0 \<le> t_N (contention_test env cfg fds)" using assms(4) by (simp_all add: contention_test_def)
  show ?thesis
    using contention_share [OF run assms(2-4,7,8)] contention_ring.finished_complete(2,3) [OF run assms(2,3) e n]
    by simp
qed

text \<open>A run of one iteration, used by the witnesses.\<close>

lemma one_iteration_run:
  assumes "t_N T = 1" and "t_expected T = 1" and "t_joins T" and "t_try T 0 (Queued [Lwrite fd off])"
  shows "local_reachable T lc_start
    \<lparr>lc_pc = Finished, lc_i = 1, lc_ring = [], lc_cq = [], lc_reaped = [((0, Lwrite fd off), 0)], lc_quit = False\<rparr>"
proof -
  let ?s = "\<lambda>pc ring cq reaped. \<lparr>lc_pc = pc, lc_i = 1, lc_ring = ring, lc_cq = cq, lc_reaped = reaped, lc_quit = False\<rparr>"
  let ?x = "(0 :: nat, Lwrite fd off)"
  have 1: "local_step T lc_start (?s Looping [?x] [] [])"
    using local_step.queue [of lc_start T "[Lwrite fd off]"] assms by (simp add: lc_start_def)
  have 2: "local_step T (?s Looping [?x] [] []) (?s Waiting [?x] [] [])"
    using local_step.finish_loop [of "?s Looping [?x] [] []" T] assms by (simp add: after_loop_def)
  have 3: "local_step T (?s Waiting [?x] [] []) (?s Waiting [] [(?x, 0)] [])"
    using local_step.complete [of "?s Waiting [?x] [] []" "[]" ?x "[]" T 0] by (simp add: lc_alive_def)
  have 4: "local_step T (?s Waiting [] [(?x, 0)] []) (?s Waiting [] [] [(?x, 0)])"
    using local_step.reap [of "?s Waiting [] [(?x, 0)] []" T] assms by (simp add: lc_alive_def reap_one_def)
  have 5: "local_step T (?s Waiting [] [] [(?x, 0)]) (?s Finished [] [] [(?x, 0)])"
    using local_step.join [of "?s Waiting [] [] [(?x, 0)]" T] assms by simp
  from local_reachable.start show ?thesis
    by (intro local_reachable.step [OF _ 5] local_reachable.step [OF _ 4] local_reachable.step [OF _ 3]
        local_reachable.step [OF _ 2] local_reachable.step [OF _ 1])
qed

theorem local_contention_share_witness:
  "\<exists>s :: local_state. lc_pc s = Finished \<and> completed_on ([5, 6] ! 0) s = (nat 1 + (2 - 1 - 0)) div 2 \<and>
     completed_on ([5, 6] ! 0) s = 1 \<and> lc_ring s = [] \<and> lc_cq s = []"
proof -
  let ?cfg = "sample_local\<lparr>l_N := 1, l_fn := 2\<rparr>"
  let ?T = "contention_test {True} ?cfg [5, 6]"
  let ?s = "\<lparr>lc_pc = Finished, lc_i = 1, lc_ring = [], lc_cq = [], lc_reaped = [((0, Lwrite 5 0), 0)], lc_quit = False\<rparr>"
  have "t_try ?T 0 (Queued [Lwrite 5 0])"
    unfolding contention_test_def local_test.select_convs
    by (intro bexI [of _ True]) (simp_all add: contention_attempt_def c_rem_pos is_int_def)
  then have "local_reachable ?T lc_start ?s"
    by (intro one_iteration_run) (simp_all add: contention_test_def)
  then have "local_reachable ?T (contention_start 0 0 (l_fn ?cfg) [5, 6]) ?s"
    by (simp add: contention_start_def)
  from local_contention_share [OF this, of 0] show ?thesis
    by (intro exI [of _ ?s]) (simp add: completed_on_def)
qed

text \<open>\<^verbatim>\<open>test_large_io_uring\<close> never ends normally: since the join of its completion thread is commented
  out, in no interleaving does the test reach its end; a run that leaves the loop ends the process by
  destroying a joinable thread.\<close>

theorem local_large_uring_aborts:
  assumes "local_reachable (large_uring_test env cfg fd) (large_uring_start 0 fd 0) s" and "0 \<le> fd"
  shows "lc_pc s = Looping \<or> lc_pc s = Aborted Terminate"
proof -
  have "local_reachable (large_uring_test env cfg fd) lc_start s"
    using assms by (simp add: large_uring_start_def)
  then show ?thesis
  proof induction
    case (step s s')
    from step.hyps(2) step.IH show ?case
    proof cases
      case spin
      then show ?thesis by (auto simp: large_uring_test_def large_attempt_def split: if_splits)
    next
      case (leave f)
      then show ?thesis by (auto simp: large_uring_test_def large_attempt_def split: if_splits)
    qed (auto simp: after_loop_def large_uring_test_def reap_one_def split: list.splits)
  qed (simp add: lc_start_def)
qed

theorem local_large_uring_aborts_witness:
  "\<exists>s :: local_state. lc_pc s \<noteq> Looping \<and> (lc_pc s = Looping \<or> lc_pc s = Aborted Terminate)"
proof -
  let ?T = "large_uring_test {True} (sample_local\<lparr>l_N := 0\<rparr>) 5"
  have "local_step ?T lc_start (lc_start\<lparr>lc_pc := Aborted Terminate\<rparr>)"
    using local_step.finish_loop [of lc_start ?T]
    by (simp add: lc_start_def large_uring_test_def after_loop_def)
  then have "local_reachable ?T (large_uring_start 0 5 0) (lc_start\<lparr>lc_pc := Aborted Terminate\<rparr>)"
    using local_reachable.step [OF local_reachable.start] by (simp add: large_uring_start_def)
  from local_large_uring_aborts [OF this] show ?thesis
    by (intro exI [of _ "lc_start\<lparr>lc_pc := Aborted Terminate\<rparr>"]) simp
qed

text \<open>the offsets of \<^verbatim>\<open>test_large_io_uring\<close>: for a buffer size that divides the 10 GiB of the file, the
  i-th write goes to block \<open>i mod (10 GiB / buffer_size)\<close>, so the blocks of the file are written in turn,
  and no write reaches past its end; the 64-bit product does not wrap for any number of iterations that
  an \<^verbatim>\<open>int\<close> can count and any buffer size below 4 GiB.\<close>

theorem local_offsets:
  assumes "int i \<le> INT_MAX" and "0 < unat (l_buffer_size cfg)" and "unat (l_buffer_size cfg) < 2 ^ 32"
    and dvd: "unat (l_buffer_size cfg) dvd 10 * 1024 ^ 3"
  shows "unat (large_offset cfg i) = (i mod (10 * 1024 ^ 3 div unat (l_buffer_size cfg))) * unat (l_buffer_size cfg)
     \<and> unat (large_offset cfg i) + unat (l_buffer_size cfg) \<le> 10 * 1024 ^ 3"
proof -
  let ?b = "unat (l_buffer_size cfg)" and ?F = "10 * 1024 ^ 3 :: nat"
  from dvd obtain k where k: "?F = ?b * k" by (rule dvdE)
  have k0: "0 < k" using k by (cases k) auto
  have "i * ?b < 2 ^ 31 * 2 ^ 32" using assms(1,3) by (intro mult_strict_mono) auto
  then have nowrap: "i * ?b < 2 ^ 64" by simp
  have i64: "unat (word_of_int (int i) :: u64) = i"
    using assms(1) uint64_nonneg [of "int i"] by (simp add: unat_eq_nat_uint)
  have "unat (word_of_int (int i) * l_buffer_size cfg :: u64) = i * ?b"
    using nowrap i64 by (simp add: unat_word_ariths)
  moreover have "unat local_filesize = ?F" by (simp add: local_filesize_def)
  ultimately have o: "unat (large_offset cfg i) = (i * ?b) mod ?F" by (simp add: large_offset_def unat_mod)
  have "(i * ?b) mod ?F = (i mod k) * ?b" unfolding k by (simp add: mult.commute [of i] mult.commute [of "i mod k"])
  moreover have "?F div ?b = k" using assms(2) unfolding k by simp
  moreover have "(i mod k) * ?b + ?b \<le> k * ?b"
    using k0 mod_less_divisor [of k i] by (metis Suc_leI add.commute mult_Suc mult_le_mono1)
  ultimately show ?thesis using o k by (simp add: mult.commute)
qed

theorem local_offsets_witness:
  "unat (large_offset (sample_local\<lparr>l_buffer_size := 4096\<rparr>) 2621441) = 4096"
proof -
  let ?cfg = "sample_local\<lparr>l_buffer_size := 4096\<rparr>"
  have "unat (l_buffer_size ?cfg) = 4096" by simp
  moreover have "(4096 :: nat) dvd 10 * 1024 ^ 3" by simp
  ultimately show ?thesis using local_offsets [of 2621441 ?cfg] by simp
qed

lemma started_not_gave_up: "local_reachable T lc_start s \<Longrightarrow> lc_pc s \<noteq> Gave_up msg"
proof (induction rule: local_reachable.induct)
  case (step s s')
  from step.hyps(2) step.IH show ?case
    by cases (auto simp: after_loop_def reap_one_def split: list.splits)
qed (simp add: lc_start_def)

text \<open>\<^verbatim>\<open>test_io_uring_exp_multithreads_large\<close>: no two threads and no two files of a thread share a
  name, and, however the threads interleave, once all have finished without a failed wait every file
  of every thread has received its share of that thread's \<^verbatim>\<open>N\<close> writes.\<close>

theorem local_multithreads_share:
  assumes run: "mt_reachable (\<lambda>t. contention_test env cfg (fds t)) (replicate (nat (l_numthreads cfg)) lc_start) ss"
    and joined: "mt_joined ss" and quit: "\<forall>s \<in> set ss. \<not> lc_quit s" and N: "0 \<le> l_N cfg"
    and t: "int t < l_numthreads cfg" and fds: "distinct (fds t)" "j < length (fds t)"
  shows "completed_on (fds t ! j) (ss ! t) = (nat (l_N cfg) + (length (fds t) - 1 - j)) div length (fds t)
     \<and> distinct (mt_names (l_numthreads cfg) (l_fn cfg))"
proof
  have len: "length ss = nat (l_numthreads cfg)" and
    r: "local_reachable (contention_test env cfg (fds t)) lc_start (ss ! t)"
    using mt_thread_reachable [OF run] t by (auto simp: nat_less_iff)
  have "ss ! t \<in> set ss" using len t by simp
  then show "completed_on (fds t ! j) (ss ! t) = (nat (l_N cfg) + (length (fds t) - 1 - j)) div length (fds t)"
    using contention_share [OF r _ _ N fds] joined quit started_not_gave_up [OF r]
    unfolding mt_joined_def by blast
  show "distinct (mt_names (l_numthreads cfg) (l_fn cfg))"
    by (simp add: mt_names_def expr_names_distinct)
qed

lemma mt_single:
  assumes "local_reachable (T 0) s0 s" and "\<And>f. lc_pc s \<noteq> Aborted f"
  shows "mt_reachable T [s0] [s]"
  using assms
proof induction
  case (step s s')
  have alive: "lc_pc s \<noteq> Aborted f" for f
    using step.hyps(2) by (cases) (auto simp: lc_alive_def)
  then have "mt_step T [s] [s']"
    using mt_step.thread [of 0 "[s]" T s'] step.hyps(2) by simp
  with step.IH alive show ?case by (blast intro: mt_reachable.step)
qed (rule mt_reachable.start)

theorem local_multithreads_share_witness:
  "\<exists>ss :: local_state list. length ss = 1 \<and> lc_pc (ss ! 0) = Finished \<and>
     completed_on ([5, 6] ! 0) (ss ! 0) = (nat 1 + (2 - 1 - 0)) div 2 \<and> distinct (mt_names 1 2)"
proof -
  let ?cfg = "sample_local\<lparr>l_N := 1, l_fn := 2, l_numthreads := 1\<rparr>"
  let ?T = "\<lambda>t :: nat. contention_test {True} ?cfg [5, 6]"
  let ?s = "\<lparr>lc_pc = Finished, lc_i = 1, lc_ring = [], lc_cq = [], lc_reaped = [((0, Lwrite 5 0), 0)], lc_quit = False\<rparr>"
  have "t_try (?T 0) 0 (Queued [Lwrite 5 0])"
    unfolding contention_test_def local_test.select_convs
    by (intro bexI [of _ True]) (simp_all add: contention_attempt_def c_rem_pos is_int_def)
  then have "local_reachable (?T 0) lc_start ?s"
    by (intro one_iteration_run) (simp_all add: contention_test_def)
  then have "mt_reachable ?T (replicate (nat (l_numthreads ?cfg)) lc_start) [?s]"
    using mt_single [of ?T lc_start ?s] by simp
  from local_multithreads_share [of "{True}" ?cfg "\<lambda>_. [5, 6]" "[?s]" 0 0, OF this] show ?thesis
    by (intro exI [of _ "[?s]"]) (simp add: mt_joined_def)
qed

end
