(* ===== verification/Aio_Local.thy ===== *)
theory Aio_Local
  imports File_Local
begin

text \<open>
  The tests of \<^verbatim>\<open>src/src/file_rw_nvmeof.cc\<close> over libaio, \<^verbatim>\<open>test_small_aio\<close> and \<^verbatim>\<open>test_large_aio\<close>: the
  main thread fills batches of control blocks and hands them to \<^verbatim>\<open>io_submit\<close>, whose result it ignores;
  the kernel accepts a prefix of each batch and completes accepted writes in any order; a second thread
  calls \<^verbatim>\<open>io_getevents\<close> until its counter has reached \<^verbatim>\<open>N\<close>, deletes the control blocks and, in the
  small-file test, closes their files. A write is known by its index, the value of \<^verbatim>\<open>cnt\<close> at which its
  control block was filled.
\<close>

section \<open>Batches\<close>

text \<open>The inner \<^verbatim>\<open>for\<close> loop: the indices of the control blocks it fills.\<close>

function aio_fill :: "int \<Rightarrow> int \<Rightarrow> nat \<Rightarrow> nat \<Rightarrow> nat list" where
  "aio_fill qd N n cnt =
     (if int n < qd \<and> int cnt < N then cnt # aio_fill qd N (Suc n) (Suc cnt) else [])"
  by auto
termination by (relation "measure (\<lambda>(qd, N, n, cnt). nat (N - int cnt))") auto

declare aio_fill.simps [simp del]

lemma aio_fill_upt: "aio_fill qd N n cnt = [cnt..<cnt + nat (min (qd - int n) (N - int cnt))]"
proof (induction qd N n cnt rule: aio_fill.induct)
  case (1 qd N n cnt)
  show ?case
  proof (cases "int n < qd \<and> int cnt < N")
    case True
    then have "nat (min (qd - int n) (N - int cnt)) = Suc (nat (min (qd - int (Suc n)) (N - int (Suc cnt))))"
      by linarith
    then show ?thesis using True "1.IH"
      by (subst aio_fill.simps) (simp add: upt_conv_Cons del: upt_Suc of_nat_Suc)
  next
    case False
    then have "nat (min (qd - int n) (N - int cnt)) = 0" by linarith
    then show ?thesis using False by (subst aio_fill.simps) simp
  qed
qed

lemma aio_fill_bound:
  "int cnt \<le> max 0 N \<Longrightarrow> int (cnt + length (aio_fill qd N 0 cnt)) \<le> max 0 N"
  unfolding aio_fill_upt by simp linarith

section \<open>The two threads and the kernel\<close>

record aio_state =
  ai_pc :: local_pc
  ai_cnt :: nat                  \<comment> \<open>the counter of the main thread\<close>
  ai_flight :: "nat list"        \<comment> \<open>accepted, not completed\<close>
  ai_events :: "nat list"        \<comment> \<open>completed, not reaped\<close>
  ai_got :: int                  \<comment> \<open>the counter of \<^verbatim>\<open>cq_thread\<close>\<close>
  ai_deleted :: "nat list"       \<comment> \<open>control blocks deleted, in order\<close>

record aio_test =
  a_N :: int
  a_queue_depth :: int
  a_opens :: "nat \<Rightarrow> bool"       \<comment> \<open>whether the open of file \<open>i\<close> succeeds\<close>

definition aio_idle :: aio_state where
  "aio_idle = \<lparr>ai_pc = Looping, ai_cnt = 0, ai_flight = [], ai_events = [], ai_got = 0, ai_deleted = []\<rparr>"


definition large_aio_start :: "local_cfg \<Rightarrow> int \<Rightarrow> int \<Rightarrow> int \<Rightarrow> aio_state" where
  "large_aio_start cfg ret mem fd =
     (if ret \<noteq> 0 then aio_idle\<lparr>ai_pc := Gave_up ''io_setup''\<rparr>
      else if mem \<noteq> 0 then aio_idle\<lparr>ai_pc := Gave_up ''posix_memalign''\<rparr>
      else if fd < 0 then aio_idle\<lparr>ai_pc := Aborted Terminate\<rparr>
      else if l_queue_depth cfg < 0 then aio_idle\<lparr>ai_pc := Aborted Bad_alloc\<rparr>
      else aio_idle)"


text \<open>The large-file test opens nothing in its loop.\<close>

definition large_aio_test :: "local_cfg \<Rightarrow> aio_test" where
  "large_aio_test cfg = \<lparr>a_N = l_N cfg, a_queue_depth = l_queue_depth cfg, a_opens = (\<lambda>_. True)\<rparr>"

text \<open>One round of the outer loop: \<open>k\<close> is how many control blocks of the batch the kernel accepts.\<close>

definition aio_submit :: "aio_test \<Rightarrow> nat \<Rightarrow> aio_state \<Rightarrow> aio_state" where
  "aio_submit T k s =
     (let batch = aio_fill (a_queue_depth T) (a_N T) 0 (ai_cnt s) in
      if \<exists>i \<in> set batch. \<not> a_opens T i then s\<lparr>ai_pc := Aborted Terminate\<rparr>
      else s\<lparr>ai_cnt := ai_cnt s + length batch, ai_flight := ai_flight s @ take k batch\<rparr>)"

text \<open>One round of \<^verbatim>\<open>cq_thread\<close>: \<open>n\<close> is what \<^verbatim>\<open>io_getevents\<close> returned, an error when negative.\<close>

definition aio_reap :: "int \<Rightarrow> aio_state \<Rightarrow> aio_state" where
  "aio_reap n s = s\<lparr>ai_deleted := ai_deleted s @ take (nat n) (ai_events s),
     ai_events := drop (nat n) (ai_events s), ai_got := ai_got s + n\<rparr>"

definition ai_alive :: "aio_state \<Rightarrow> bool" where
  "ai_alive s \<longleftrightarrow> ai_pc s \<in> {Looping, Waiting}"

inductive aio_step :: "aio_test \<Rightarrow> aio_state \<Rightarrow> aio_state \<Rightarrow> bool" for T where
  submit: "ai_pc s = Looping \<Longrightarrow> int (ai_cnt s) < a_N T \<Longrightarrow> aio_step T s (aio_submit T k s)"
| finish_loop: "ai_pc s = Looping \<Longrightarrow> a_N T \<le> int (ai_cnt s) \<Longrightarrow> aio_step T s (s\<lparr>ai_pc := Waiting\<rparr>)"
| complete: "ai_alive s \<Longrightarrow> ai_flight s = xs @ i # ys \<Longrightarrow>
     aio_step T s (s\<lparr>ai_flight := xs @ ys, ai_events := ai_events s @ [i]\<rparr>)"
| reap: "ai_alive s \<Longrightarrow> ai_got s < a_N T \<Longrightarrow> n \<le> int (length (ai_events s)) \<Longrightarrow> n \<le> a_queue_depth T \<Longrightarrow>
     aio_step T s (aio_reap n s)"
| join: "ai_pc s = Waiting \<Longrightarrow> a_N T \<le> ai_got s \<Longrightarrow> aio_step T s (s\<lparr>ai_pc := Finished\<rparr>)"

inductive aio_reachable :: "aio_test \<Rightarrow> aio_state \<Rightarrow> aio_state \<Rightarrow> bool" for T s0 where
  start: "aio_reachable T s0 s0"
| step: "aio_reachable T s0 s \<Longrightarrow> aio_step T s s' \<Longrightarrow> aio_reachable T s0 s'"

inductive_cases aio_stepE: "aio_step T s s'"


section \<open>The invariant\<close>

definition aio_tracked :: "aio_state \<Rightarrow> nat list" where
  "aio_tracked s = ai_flight s @ ai_events s @ ai_deleted s"

text \<open>Control blocks that were filled and not accepted by the kernel.\<close>

definition aio_lost :: "aio_state \<Rightarrow> int" where
  "aio_lost s = int (ai_cnt s) - int (length (aio_tracked s))"

definition aio_inv :: "aio_test \<Rightarrow> aio_state \<Rightarrow> bool" where
  "aio_inv T s \<longleftrightarrow> mset (aio_tracked s) \<subseteq># mset [0..<ai_cnt s] \<and> ai_got s \<le> int (length (ai_deleted s)) \<and>
     int (ai_cnt s) \<le> max 0 (a_N T) \<and>
     (ai_pc s = Waiting \<or> ai_pc s = Finished \<longrightarrow> a_N T \<le> int (ai_cnt s)) \<and>
     (ai_pc s = Finished \<longrightarrow> a_N T \<le> ai_got s)"

lemma aio_inv_idle: "aio_inv T aio_idle"
  by (simp add: aio_inv_def aio_idle_def aio_tracked_def)

lemma aio_submit_inv:
  assumes inv: "aio_inv T s" and pc: "ai_pc s = Looping"
  shows "aio_inv T (aio_submit T k s)"
proof -
  let ?b = "aio_fill (a_queue_depth T) (a_N T) 0 (ai_cnt s)"
  let ?s = "s\<lparr>ai_cnt := ai_cnt s + length ?b, ai_flight := ai_flight s @ take k ?b\<rparr>"
  have "mset (take k ?b) \<subseteq># mset ?b"
    by (metis append_take_drop_id mset_append mset_subset_eq_add_left)
  moreover have b: "?b = [ai_cnt s..<ai_cnt s + length ?b]" by (simp add: aio_fill_upt)
  then have "mset [0..<ai_cnt s + length ?b] = mset [0..<ai_cnt s] + mset ?b"
    by (metis le_add1 mset_append upt_add_eq_append zero_le)
  ultimately have "mset (aio_tracked s) + mset (take k ?b) \<subseteq># mset [0..<ai_cnt s + length ?b]"
    using inv by (simp add: aio_inv_def subset_mset.add_mono del: mset_upt)
  then have "aio_inv T ?s"
    using inv pc aio_fill_bound by (simp add: aio_inv_def aio_tracked_def add_ac del: mset_upt)
  moreover have "aio_inv T (s\<lparr>ai_pc := Aborted Terminate\<rparr>)"
    using inv by (simp add: aio_inv_def aio_tracked_def)
  ultimately show ?thesis by (simp add: aio_submit_def Let_def)
qed

lemma aio_reap_tracked: "mset (aio_tracked (aio_reap n s)) = mset (aio_tracked s)"
proof -
  have "mset (take (nat n) (ai_events s)) + mset (drop (nat n) (ai_events s)) = mset (ai_events s)"
    by (metis append_take_drop_id mset_append)
  then show ?thesis by (simp add: aio_tracked_def aio_reap_def add_ac)
qed

lemma aio_step_inv: "aio_step T s s' \<Longrightarrow> aio_inv T s \<Longrightarrow> aio_inv T s'"
proof (erule aio_stepE)
  fix k
  assume "aio_inv T s" and "s' = aio_submit T k s" and "ai_pc s = Looping"
  then show ?thesis by (simp add: aio_submit_inv)
next
  fix n
  assume "aio_inv T s" and "s' = aio_reap n s" and "n \<le> int (length (ai_events s))" and "ai_alive s"
  then show ?thesis using aio_reap_tracked [of n s]
    by (auto simp: aio_inv_def aio_reap_def ai_alive_def)
qed (auto simp: aio_inv_def aio_tracked_def)

lemma aio_reachable_inv: "aio_reachable T s0 s \<Longrightarrow> aio_inv T s0 \<Longrightarrow> aio_inv T s"
  by (induction rule: aio_reachable.induct) (auto intro: aio_step_inv)

lemma aio_lost_mono: "aio_step T s s' \<Longrightarrow> aio_lost s \<le> aio_lost s'"
proof (erule aio_stepE)
  fix n
  assume "s' = aio_reap n s"
  then show ?thesis using aio_reap_tracked [of n s]
    by (auto simp: aio_lost_def aio_reap_def dest: mset_eq_length)
qed (auto simp: aio_lost_def aio_tracked_def aio_submit_def Let_def)

lemma aio_finished:
  assumes "aio_inv T s" and "ai_pc s = Finished"
  shows "ai_flight s = []" and "ai_events s = []" and "mset (ai_deleted s) = mset [0..<nat (a_N T)]"
    and "aio_lost s = 0" and "ai_cnt s = nat (a_N T)"
proof -
  have sub: "mset (aio_tracked s) \<subseteq># mset [0..<ai_cnt s]" and
    c: "ai_cnt s = nat (a_N T)" and "a_N T \<le> int (length (ai_deleted s))"
    using assms by (auto simp: aio_inv_def)
  moreover have "length (aio_tracked s) \<le> ai_cnt s" using size_mset_mono [OF sub] by simp
  ultimately have len: "length (ai_flight s) = 0 \<and> length (ai_events s) = 0 \<and> length (ai_deleted s) = ai_cnt s"
    unfolding aio_tracked_def length_append by linarith
  then show "ai_flight s = []" and "ai_events s = []" and "aio_lost s = 0"
    by (simp_all add: aio_lost_def aio_tracked_def)
  then have "aio_tracked s = ai_deleted s" by (simp add: aio_tracked_def)
  with sub len have "mset (ai_deleted s) = mset [0..<ai_cnt s]"
    by (metis diff_zero length_upt mset_subset_size size_mset subset_mset.le_neq_trans less_irrefl)
  with c show "mset (ai_deleted s) = mset [0..<nat (a_N T)]" and "ai_cnt s = nat (a_N T)" by simp_all
qed

section \<open>Properties\<close>



text \<open>a control block that \<^verbatim>\<open>io_submit\<close> did not accept hangs \<^verbatim>\<open>test_large_aio\<close>: its result is ignored,
  so once fewer writes were accepted than filled (the context was set up for 10 events, whatever the
  queue depth), no continuation of the run reaches the end of the test.\<close>

theorem aio_large_lost_hangs:
  assumes "aio_reachable (large_aio_test cfg) (large_aio_start cfg 0 0 fd) s"
    and "0 \<le> l_queue_depth cfg" and "0 \<le> fd" and "0 < aio_lost s"
    and "aio_reachable (large_aio_test cfg) s s'"
  shows "ai_pc s' \<noteq> Finished"
proof
  assume fin: "ai_pc s' = Finished"
  have "large_aio_start cfg 0 0 fd = aio_idle" using assms(2,3) by (simp add: large_aio_start_def)
  then have "aio_inv (large_aio_test cfg) s" using aio_reachable_inv [OF assms(1)] aio_inv_idle by simp
  then have "aio_inv (large_aio_test cfg) s'" by (rule aio_reachable_inv [OF assms(5)])
  then have "aio_lost s' = 0" using aio_finished(4) fin by blast
  moreover have "aio_lost s \<le> aio_lost s'"
    using assms(5) by induction (auto dest: aio_lost_mono)
  ultimately show False using assms(4) by simp
qed

theorem aio_large_lost_hangs_witness:
  "\<exists>s :: aio_state. aio_lost s = 2 \<and> ai_pc s = Looping \<and>
     (\<forall>s'. aio_reachable (large_aio_test sample_local) s s' \<longrightarrow> ai_pc s' \<noteq> Finished)"
proof -
  let ?T = "large_aio_test sample_local"
  let ?s = "\<lparr>ai_pc = Looping, ai_cnt = 3, ai_flight = [0], ai_events = [], ai_got = 0, ai_deleted = []\<rparr>"
  have "aio_fill 128 3 0 0 = [0, 1, 2]" by (simp add: aio_fill_upt upt_rec)
  then have "aio_step ?T aio_idle ?s"
    using aio_step.submit [of aio_idle ?T 1]
    by (simp add: aio_idle_def large_aio_test_def aio_submit_def Let_def numeral_3_eq_3)
  then have "aio_reachable ?T (large_aio_start sample_local 0 0 5) ?s"
    using aio_reachable.step [OF aio_reachable.start] by (simp add: large_aio_start_def)
  from aio_large_lost_hangs [OF this] show ?thesis
    by (intro exI [of _ ?s]) (simp add: aio_lost_def aio_tracked_def)
qed

end
