(* ===== verification/Bench_Worker.thy ===== *)
theory Bench_Worker
  imports Nv_Prelude
begin

text \<open>
  The io_uring worker of \<^verbatim>\<open>src/src/benchmark.cc\<close>: its options, the accounting of completions, the
  submission of one write, the timed loop, and the launch of a worker. The submission and completion
  rings are liburing's; their calls are the fields of \<open>ring_ops\<close>. The userspace RDMA worker, which
  shares the submission path, is in the theory \<open>Bench_Rdma\<close>.
\<close>

section \<open>Options and state\<close>

record bench_cfg =
  b_bs :: u64
  b_batch :: u32
  b_rdma_batch :: u32
  b_file :: string
  b_file_size :: u64
  b_uring_qd :: int
  b_rdma_qd :: int
  b_runtime :: u32
  b_client :: bool
  b_user_rdma :: bool
  b_host :: string
  b_port :: int
  b_event :: bool

text \<open>
  The conversions of \<^verbatim>\<open>parse_args\<close>: \<^verbatim>\<open>int * KB\<close> is computed in 32 bits before it is widened,
  \<^verbatim>\<open>int * GB\<close> in 64.
\<close>

definition bench_options ::
  "int \<Rightarrow> string \<Rightarrow> int \<Rightarrow> int \<Rightarrow> int \<Rightarrow> int \<Rightarrow> int \<Rightarrow> int \<Rightarrow> bool \<Rightarrow> string \<Rightarrow> int \<Rightarrow> bool \<Rightarrow> bool \<Rightarrow> bench_cfg" where
  "bench_options bs file filesize uring_qd rdma_qd rt batch rdma_batch client host port user_rdma event =
     \<lparr>b_bs = word_of_int (uint (word_of_int bs * 1024 :: u32)), b_batch = word_of_int batch,
      b_rdma_batch = word_of_int rdma_batch, b_file = file,
      b_file_size = word_of_int filesize * 1073741824, b_uring_qd = uring_qd, b_rdma_qd = rdma_qd,
      b_runtime = word_of_int rt, b_client = client, b_user_rdma = user_rdma, b_host = host,
      b_port = port, b_event = event\<rparr>"

record io_worker =
  worker_id :: int
  sqe_queued :: u32
  rdma_wr_posted :: u64
  cur_offset :: u64
  io_completed :: u64
  free_io_units_io_uring :: u64
  free_io_units_rdma :: u64
  wk_fd :: int
  wk_stopped :: bool
  start_time :: int
  rmt_addr :: u64
  rmt_size :: u32
  rmt_rkey :: u32
  data_pool :: u64
  data_pool_size :: u32

record 'w ring_ops =
  rg_now :: "'w \<Rightarrow> int \<times> 'w"
  rg_peek :: "'w \<Rightarrow> int list \<times> 'w"       \<comment> \<open>the results of the completions a pass sees\<close>
  rg_seen :: "'w \<Rightarrow> 'w"
  rg_get_sqe :: "'w \<Rightarrow> bool \<times> 'w"
  rg_prep :: "int \<Rightarrow> u64 \<Rightarrow> u64 \<Rightarrow> u64 \<Rightarrow> 'w \<Rightarrow> 'w"  \<comment> \<open>descriptor, address, length, offset\<close>
  rg_submit :: "'w \<Rightarrow> int \<times> 'w"

record 'w bench_sys =
  by_open :: "string \<Rightarrow> 'w \<Rightarrow> int \<times> 'w"
  by_fstat :: "int \<Rightarrow> 'w \<Rightarrow> (int \<times> u64) \<times> 'w"
  by_fallocate :: "int \<Rightarrow> u64 \<Rightarrow> 'w \<Rightarrow> int \<times> 'w"
  by_ring_init :: "int \<Rightarrow> 'w \<Rightarrow> int \<times> 'w"
  by_memalign :: "u64 \<Rightarrow> 'w \<Rightarrow> u64 \<times> 'w"

section \<open>Reaping completions\<close>

definition runtime_exceeded :: "bench_cfg \<Rightarrow> int \<Rightarrow> int \<Rightarrow> bool" where
  "runtime_exceeded cfg start now \<longleftrightarrow> (now - start) sdiv 1000000000 > uint (b_runtime cfg)"

text \<open>One \<^verbatim>\<open>io_uring_for_each_cqe\<close>: \<open>False\<close> at the first failed completion, which is not consumed.\<close>

fun reap_cqes ::
  "'w ring_ops \<Rightarrow> int list \<Rightarrow> io_worker \<Rightarrow> nat \<Rightarrow> 'w \<Rightarrow> (bool \<times> io_worker \<times> nat) \<times> 'w" where
  "reap_cqes rg [] wk reaped w = ((True, wk, reaped), w)"
| "reap_cqes rg (res # rest) wk reaped w =
     (if res < 0 then ((False, wk, reaped), w)
      else reap_cqes rg rest
             (wk\<lparr>io_completed := io_completed wk + 1, free_io_units_io_uring := free_io_units_io_uring wk + 1\<rparr>)
             (Suc reaped) (rg_seen rg w))"

definition reap_body ::
  "'w ring_ops \<Rightarrow> int \<Rightarrow> io_worker \<times> nat \<times> 'w \<Rightarrow> (io_worker \<times> nat \<times> 'w) + ((int \<times> io_worker) \<times> 'w)" where
  "reap_body rg want = (\<lambda>(wk, reaped, w).
     case rg_peek rg w of (cqes, w1) \<Rightarrow>
     case reap_cqes rg cqes wk reaped w1 of ((ok, wk', reaped'), w2) \<Rightarrow>
     if \<not> ok then Inr ((-1, wk'), w2)
     else if int reaped' < want then Inl (wk', reaped', w2)
     else Inr ((int reaped', wk'), w2))"

text \<open>\<open>None\<close>: the wait for \<open>want\<close> completions never ends.\<close>

definition reap_io_uring_cq ::
  "'w ring_ops \<Rightarrow> io_worker \<Rightarrow> int \<Rightarrow> 'w \<Rightarrow> ((int \<times> io_worker) \<times> 'w) option" where
  "reap_io_uring_cq rg wk want w = loop (reap_body rg want) (wk, 0, w)"

section \<open>Queueing one write\<close>

text \<open>The loops below exit with \<open>None\<close> when a wait inside them never ends, and with \<open>False\<close> on an error.\<close>

type_synonym 'w step_result = "((bool \<times> io_worker) \<times> 'w) option"

definition get_sqe_body ::
  "'w ring_ops \<Rightarrow> io_worker \<times> 'w \<Rightarrow> (io_worker \<times> 'w) + 'w step_result" where
  "get_sqe_body rg = (\<lambda>(wk, w).
     case rg_get_sqe rg w of (got, w1) \<Rightarrow>
     if got then Inr (Some ((True, wk), w1))
     else (case reap_io_uring_cq rg wk 0 w1 of
             None \<Rightarrow> Inr None
           | Some ((r, wk'), w2) \<Rightarrow> if r < 0 then Inr (Some ((False, wk'), w2)) else Inl (wk', w2)))"

definition submit_body ::
  "'w ring_ops \<Rightarrow> io_worker \<times> 'w \<Rightarrow> (io_worker \<times> 'w) + 'w step_result" where
  "submit_body rg = (\<lambda>(wk, w).
     if sqe_queued wk = 0 then Inr (Some ((True, wk), w))
     else case rg_submit rg w of (ret, w1) \<Rightarrow>
       if ret > 0 then Inl (wk\<lparr>sqe_queued := sqe_queued wk - word_of_int ret\<rparr>, w1)
       else (case reap_io_uring_cq rg wk 0 w1 of
               None \<Rightarrow> Inr None
             | Some ((r, wk'), w2) \<Rightarrow> if r < 0 then Inr (Some ((False, wk'), w2)) else Inl (wk', w2)))"

definition bindL :: "'w step_result option \<Rightarrow> (io_worker \<Rightarrow> 'w \<Rightarrow> 'w step_result) \<Rightarrow> 'w step_result" where
  "bindL m f = (case m of
     Some (Some ((True, wk), w)) \<Rightarrow> f wk w
   | Some (Some ((False, wk), w)) \<Rightarrow> Some ((False, wk), w)
   | _ \<Rightarrow> None)"

text \<open>The offset of the next write: back to the start when a whole block no longer fits before the end.\<close>

definition next_offset :: "u64 \<Rightarrow> u64 \<Rightarrow> u64 \<Rightarrow> u64" where
  "next_offset bs lim off = (let off' = off + bs in if off' + bs \<ge> lim then 0 else off')"

text \<open>From the acquisition of an entry to the check of the free units; \<open>base\<close> is \<^verbatim>\<open>iov_base\<close>.\<close>

definition enqueue_write ::
  "bench_cfg \<Rightarrow> 'w ring_ops \<Rightarrow> u64 \<Rightarrow> io_worker \<Rightarrow> 'w \<Rightarrow> 'w step_result" where
  "enqueue_write cfg rg base wk w =
     bindL (loop (get_sqe_body rg) (wk, w)) (\<lambda>wk1 w1.
     let w2 = rg_prep rg (wk_fd wk1) base (b_bs cfg) (cur_offset wk1) w1;
         wk2 = wk1\<lparr>cur_offset := next_offset (b_bs cfg) (b_file_size cfg) (cur_offset wk1),
                   free_io_units_io_uring := free_io_units_io_uring wk1 - 1,
                   sqe_queued := sqe_queued wk1 + 1\<rparr> in
     bindL (if sqe_queued wk2 = b_batch cfg then loop (submit_body rg) (wk2, w2)
            else Some (Some ((True, wk2), w2))) (\<lambda>wk3 w3.
     if free_io_units_io_uring wk3 = 0 then
       (case reap_io_uring_cq rg wk3 1 w3 of
          None \<Rightarrow> None
        | Some ((r, wk4), w4) \<Rightarrow> Some ((\<not> r < 0, wk4), w4))
     else Some ((True, wk3), w3)))"

section \<open>The worker\<close>

text \<open>Opening and sizing the test file and setting up the ring: \<open>False\<close> when a call fails.\<close>

definition open_test_file ::
  "bench_cfg \<Rightarrow> 'w bench_sys \<Rightarrow> io_worker \<Rightarrow> 'w \<Rightarrow> (bool \<times> io_worker) \<times> 'w" where
  "open_test_file cfg sys wk w =
     (case by_open sys (b_file cfg) w of (fd, w1) \<Rightarrow>
      let wk1 = wk\<lparr>wk_fd := fd\<rparr> in
      if fd < 0 then ((False, wk1), w1)
      else case by_fstat sys fd w1 of ((e, sz), w2) \<Rightarrow>
      if e \<noteq> 0 then ((False, wk1), w2)
      else case (if sz \<noteq> b_file_size cfg then by_fallocate sys fd (b_file_size cfg) w2 else (0, w2)) of (e2, w3) \<Rightarrow>
      if e2 \<noteq> 0 then ((False, wk1), w3)
      else case by_ring_init sys (b_uring_qd cfg) w3 of (e3, w4) \<Rightarrow>
      if e3 \<noteq> 0 then ((False, wk1), w4) else ((True, wk1), w4))"

definition uring_iteration ::
  "bench_cfg \<Rightarrow> 'w ring_ops \<Rightarrow> u64 \<Rightarrow> io_worker \<times> 'w \<Rightarrow> (io_worker \<times> 'w) + 'w step_result" where
  "uring_iteration cfg rg buffer = (\<lambda>(wk, w).
     case rg_now rg w of (now, w1) \<Rightarrow>
     if runtime_exceeded cfg (start_time wk) now then Inr (Some ((True, wk\<lparr>wk_stopped := True\<rparr>), w1))
     else (case enqueue_write cfg rg buffer wk w1 of
             None \<Rightarrow> Inr None
           | Some ((ok, wk'), w2) \<Rightarrow> if ok then Inl (wk', w2) else Inr (Some ((False, wk'), w2))))"

text \<open>\<open>False\<close>: the thread leaves by \<^verbatim>\<open>pthread_exit((void *)1)\<close>.\<close>

definition do_io_io_uring ::
  "bench_cfg \<Rightarrow> 'w bench_sys \<Rightarrow> 'w ring_ops \<Rightarrow> io_worker \<Rightarrow> 'w \<Rightarrow> 'w step_result" where
  "do_io_io_uring cfg sys rg wk w =
     (case open_test_file cfg sys wk w of ((ok, wk1), w1) \<Rightarrow>
      if \<not> ok then Some ((False, wk1), w1)
      else case by_memalign sys (b_bs cfg) w1 of (buffer, w2) \<Rightarrow>
      if buffer = 0 then Some ((False, wk1), w2)
      else case rg_now rg w2 of (now, w3) \<Rightarrow>
      bindL (loop (uring_iteration cfg rg buffer) (wk1\<lparr>start_time := now\<rparr>, w3)) (\<lambda>wk2 w4. Some ((True, wk2), w4)))"

text \<open>
  \<^verbatim>\<open>memset(worker, 0, sizeof(worker))\<close> clears as many bytes as a pointer has, which is the worker's
  number and the padding after it; every member not assigned below keeps the contents \<open>garbage\<close> of
  the allocated memory.
\<close>

definition launch_worker :: "bench_cfg \<Rightarrow> io_worker \<Rightarrow> io_worker" where
  "launch_worker cfg garbage =
     (let wk = garbage\<lparr>free_io_units_io_uring := word_of_int (b_uring_qd cfg),
                      free_io_units_rdma := word_of_int (b_rdma_qd cfg), rdma_wr_posted := 0,
                      worker_id := 0, wk_stopped := False\<rparr> in
      if b_client cfg then wk else wk\<lparr>data_pool_size := 33554432\<rparr>)"

section \<open>Statistics\<close>

text \<open>
  One iteration of \<^verbatim>\<open>calculate_stats\<close> on the counters it reads, which it truncates to 32 bits: nothing
  to print yet, or the thousands of operations per second.
\<close>

definition stats_iteration :: "u64 \<Rightarrow> int \<Rightarrow> u32 option" where
  "stats_iteration completed elapsed_ns =
     (let io = ucast completed :: u32; ms = word_of_int (elapsed_ns sdiv 1000000) :: u32 in
      if io = 0 \<or> ms = 0 then None else Some (io div ms))"

section \<open>Wrapping cursors\<close>

text \<open>
  The contract of a position that advances block by block and returns to its origin when less than
  two blocks are left: \<open>valid\<close> says when the machine arithmetic does not wrap.
\<close>

locale wrap_cursor =
  fixes advance :: "'b \<Rightarrow> 'l \<Rightarrow> 'o \<Rightarrow> 'o" and pos :: "'o \<Rightarrow> nat" and blk :: "'b \<Rightarrow> nat" and lim :: "'l \<Rightarrow> nat"
    and origin :: 'o and valid :: "'b \<Rightarrow> 'l \<Rightarrow> bool"
  assumes pos_origin: "pos origin = 0" and blk_pos: "valid b l \<Longrightarrow> 0 < blk b"
    and pos_advance: "valid b l \<Longrightarrow> pos p < max 1 (lim l) \<Longrightarrow>
      pos (advance b l p) = (if lim l \<le> pos p + 2 * blk b then 0 else pos p + blk b)"
begin

definition slots :: "'b \<Rightarrow> 'l \<Rightarrow> nat" where
  "slots b l = max 1 ((lim l - 1) div blk b)"

lemma last_slot:
  assumes "valid b l" and "j < slots b l"
  shows "lim l \<le> j * blk b + 2 * blk b \<longleftrightarrow> Suc j = slots b l" and "j * blk b < max 1 (lim l)"
proof -
  have b: "0 < blk b" by (rule blk_pos [OF assms(1)])
  have cmp: "x * blk b \<le> lim l - 1 \<longleftrightarrow> x \<le> (lim l - 1) div blk b" for x
    using b by (simp add: less_eq_div_iff_mult_less_eq)
  have "lim l \<le> (j + 2) * blk b \<longleftrightarrow> \<not> (j + 2) * blk b \<le> lim l - 1"
    using b by (cases "lim l") auto
  then have "lim l \<le> (j + 2) * blk b \<longleftrightarrow> (lim l - 1) div blk b < j + 2" unfolding cmp not_le .
  then show "lim l \<le> j * blk b + 2 * blk b \<longleftrightarrow> Suc j = slots b l"
    using assms(2) by (auto simp: slots_def max_def add_mult_distrib split: if_splits)
  show "j * blk b < max 1 (lim l)"
    using assms(2) cmp [of j] by (cases "j = 0") (auto simp: slots_def max_def split: if_splits)
qed

lemma pos_iterate:
  assumes "valid b l"
  shows "pos ((advance b l ^^ k) origin) = (k mod slots b l) * blk b"
proof (induction k)
  case (Suc k)
  have j: "k mod slots b l < slots b l" by (rule mod_less_divisor) (simp add: slots_def)
  have "pos (advance b l ((advance b l ^^ k) origin)) =
      (if Suc (k mod slots b l) = slots b l then 0 else Suc (k mod slots b l) * blk b)"
    using pos_advance [OF assms, of "(advance b l ^^ k) origin"] last_slot [OF assms j] Suc by simp
  then show ?case by (simp add: mod_Suc)
qed (simp add: pos_origin)

text \<open>Every block lies strictly before the limit: the last byte is never reached.\<close>

lemma pos_in_range:
  assumes "valid b l" and "blk b < lim l"
  shows "pos ((advance b l ^^ k) origin) + blk b < lim l"
proof -
  have b: "0 < blk b" by (rule blk_pos [OF assms(1)])
  have "1 \<le> (lim l - 1) div blk b" using assms(2) b by (simp add: less_eq_div_iff_mult_less_eq)
  then have s: "slots b l = (lim l - 1) div blk b" by (simp add: slots_def)
  have "Suc (k mod slots b l) \<le> slots b l" using s \<open>1 \<le> _\<close> by (simp add: Suc_le_eq)
  then have "Suc (k mod slots b l) * blk b \<le> lim l - 1"
    using s less_eq_div_iff_mult_less_eq [OF b] by metis
  then show ?thesis using pos_iterate [OF assms(1)] assms(2) by simp
qed

end

definition offset_valid :: "u64 \<Rightarrow> u64 \<Rightarrow> bool" where
  "offset_valid bs lim \<longleftrightarrow> 0 < bs \<and> unat lim + 2 * unat bs < 2 ^ 64"

interpretation file_cursor: wrap_cursor next_offset unat unat unat 0 offset_valid
proof
  fix b l :: u64 assume "offset_valid b l"
  then show "0 < unat b" by (simp add: offset_valid_def unat_gt_0 word_neq_0_conv)
next
  fix b l p :: u64
  assume v: "offset_valid b l" and p: "unat p < max 1 (unat l)"
  have "unat p \<le> unat l" using p by (simp add: max_def split: if_splits)
  then have small: "unat p + unat b < 2 ^ 64" "unat p + unat b + unat b < 2 ^ 64"
    using v by (simp_all add: offset_valid_def)
  then have s1: "unat (p + b) = unat p + unat b" by (simp add: unat_word_ariths)
  then have "unat (p + b + b) = unat p + unat b + unat b" using small by (simp add: unat_word_ariths)
  then show "unat (next_offset b l p) = (if unat l \<le> unat p + 2 * unat b then 0 else unat p + unat b)"
    using s1 by (simp add: next_offset_def Let_def word_le_nat_alt)
qed simp

section \<open>Credit\<close>

text \<open>
  What the accounting relies on: \<open>outst\<close> counts the entries prepared and not yet consumed, \<open>peak\<close> is
  the most there have been. A completion is seen only for an outstanding entry.
\<close>

definition ring_law :: "'w ring_ops \<Rightarrow> ('w \<Rightarrow> nat) \<Rightarrow> ('w \<Rightarrow> nat) \<Rightarrow> bool" where
  "ring_law rg outst peak \<longleftrightarrow>
     (\<forall>w t w'. rg_now rg w = (t, w') \<longrightarrow> outst w' = outst w \<and> peak w' = peak w) \<and>
     (\<forall>w cqes w'. rg_peek rg w = (cqes, w') \<longrightarrow>
        outst w' = outst w \<and> peak w' = peak w \<and> length cqes \<le> outst w) \<and>
     (\<forall>w. 0 < outst w \<longrightarrow> Suc (outst (rg_seen rg w)) = outst w \<and> peak (rg_seen rg w) = peak w) \<and>
     (\<forall>w b w'. rg_get_sqe rg w = (b, w') \<longrightarrow> outst w' = outst w \<and> peak w' = peak w) \<and>
     (\<forall>fd a n off w. outst (rg_prep rg fd a n off w) = Suc (outst w) \<and>
        peak (rg_prep rg fd a n off w) = max (peak w) (Suc (outst w))) \<and>
     (\<forall>w r w'. rg_submit rg w = (r, w') \<longrightarrow> outst w' = outst w \<and> peak w' = peak w)"

lemma ring_lawD:
  assumes "ring_law rg outst peak"
  shows "rg_now rg w = (t, w') \<Longrightarrow> outst w' = outst w \<and> peak w' = peak w"
    and "rg_peek rg w = (cqes, w') \<Longrightarrow> outst w' = outst w \<and> peak w' = peak w \<and> length cqes \<le> outst w"
    and "0 < outst w \<Longrightarrow> Suc (outst (rg_seen rg w)) = outst w \<and> peak (rg_seen rg w) = peak w"
    and "rg_get_sqe rg w = (b, w') \<Longrightarrow> outst w' = outst w \<and> peak w' = peak w"
    and "outst (rg_prep rg fd a n off w) = Suc (outst w)"
    and "peak (rg_prep rg fd a n off w) = max (peak w) (Suc (outst w))"
    and "rg_submit rg w = (r, w') \<Longrightarrow> outst w' = outst w \<and> peak w' = peak w"
  using assms unfolding ring_law_def by metis+

text \<open>Free units and outstanding entries add up to the depth, which was never exceeded.\<close>

definition credit :: "('w \<Rightarrow> nat) \<Rightarrow> ('w \<Rightarrow> nat) \<Rightarrow> nat \<Rightarrow> io_worker \<Rightarrow> 'w \<Rightarrow> bool" where
  "credit outst peak depth wk w \<longleftrightarrow>
     unat (free_io_units_io_uring wk) + outst w = depth \<and> peak w \<le> depth \<and> depth < 2 ^ 64"

lemma credit_take:
  assumes "credit outst peak depth wk w" and "0 < outst w" and "Suc (outst w') = outst w" and "peak w' = peak w"
  shows "credit outst peak depth
     (wk\<lparr>io_completed := c, free_io_units_io_uring := free_io_units_io_uring wk + 1\<rparr>) w'"
    and "unat (free_io_units_io_uring wk + 1) = Suc (unat (free_io_units_io_uring wk))"
proof -
  have "Suc (unat (free_io_units_io_uring wk)) < 2 ^ 64" using assms by (simp add: credit_def)
  then show eq: "unat (free_io_units_io_uring wk + 1) = Suc (unat (free_io_units_io_uring wk))"
    by (simp add: unat_word_ariths)
  show "credit outst peak depth
     (wk\<lparr>io_completed := c, free_io_units_io_uring := free_io_units_io_uring wk + 1\<rparr>) w'"
    using assms eq by (simp add: credit_def)
qed

lemma reap_cqes_credit:
  assumes law: "ring_law rg outst peak" and "credit outst peak depth wk w" and "length cqes \<le> outst w"
    and "reap_cqes rg cqes wk reaped w = ((ok, wk', reaped'), w')"
  shows "credit outst peak depth wk' w' \<and>
     unat (free_io_units_io_uring wk') + reaped = unat (free_io_units_io_uring wk) + reaped'"
  using assms(2-)
proof (induction cqes arbitrary: wk reaped w)
  case (Cons res rest)
  show ?case
  proof (cases "res < 0")
    case True
    then show ?thesis using Cons.prems by auto
  next
    case False
    let ?wk = "wk\<lparr>io_completed := io_completed wk + 1, free_io_units_io_uring := free_io_units_io_uring wk + 1\<rparr>"
    have o: "0 < outst w" using Cons.prems(2) by simp
    note seen = ring_lawD(3) [OF law o]
    have c: "credit outst peak depth ?wk (rg_seen rg w)"
      using credit_take(1) [OF Cons.prems(1) o] seen by blast
    have u: "unat (free_io_units_io_uring wk + 1) = Suc (unat (free_io_units_io_uring wk))"
      using credit_take(2) [OF Cons.prems(1) o] seen by blast
    have "length rest \<le> outst (rg_seen rg w)" using seen Cons.prems(2) by simp
    from Cons.IH [OF c this, of "Suc reaped"] Cons.prems(3) False u show ?thesis by simp
  qed
qed simp

lemma reap_credit:
  assumes law: "ring_law rg outst peak" and c: "credit outst peak depth wk w"
    and run: "reap_io_uring_cq rg wk want w = Some ((r, wk'), w')"
  shows "credit outst peak depth wk' w' \<and> (r \<ge> 0 \<longrightarrow>
     want \<le> r \<and> unat (free_io_units_io_uring wk') = unat (free_io_units_io_uring wk) + nat r)"
proof -
  let ?I = "\<lambda>(wk1, reaped, w1). credit outst peak depth wk1 w1 \<and>
     unat (free_io_units_io_uring wk1) = unat (free_io_units_io_uring wk) + reaped"
  let ?Q = "\<lambda>((r, wk'), w'). credit outst peak depth wk' w' \<and> (r \<ge> 0 \<longrightarrow>
     want \<le> r \<and> unat (free_io_units_io_uring wk') = unat (free_io_units_io_uring wk) + nat r)"
  have pass: "credit outst peak depth wk2 w2 \<and>
      unat (free_io_units_io_uring wk2) = unat (free_io_units_io_uring wk) + r2"
    if "?I (wk1, r1, w1)" and "rg_peek rg w1 = (cqes, wp)" and "reap_cqes rg cqes wk1 r1 wp = ((ok, wk2, r2), w2)"
    for wk1 r1 w1 cqes wp ok wk2 r2 w2
  proof -
    have "credit outst peak depth wk1 wp" and "length cqes \<le> outst wp"
      using that(1) ring_lawD(2) [OF law that(2)] by (auto simp: credit_def)
    from reap_cqes_credit [OF law this that(3)] that(1) show ?thesis by auto
  qed
  have body: "\<exists>ok wk2 r2 w2. credit outst peak depth wk2 w2 \<and>
      unat (free_io_units_io_uring wk2) = unat (free_io_units_io_uring wk) + r2 \<and>
      reap_body rg want s = (if \<not> ok then Inr ((-1, wk2), w2)
        else if int r2 < want then Inl (wk2, r2, w2) else Inr ((int r2, wk2), w2))" if "?I s" for s
  proof -
    obtain wk1 r1 w1 where s: "s = (wk1, r1, w1)" by (cases s)
    obtain cqes wp where p: "rg_peek rg w1 = (cqes, wp)" by (metis prod.exhaust)
    obtain ok wk2 r2 w2 where q: "reap_cqes rg cqes wk1 r1 wp = ((ok, wk2, r2), w2)" by (metis prod.exhaust)
    have "credit outst peak depth wk2 w2 \<and>
      unat (free_io_units_io_uring wk2) = unat (free_io_units_io_uring wk) + r2"
      by (rule pass [OF that [unfolded s] p q])
    then show ?thesis by (intro exI [of _ ok] exI [of _ wk2] exI [of _ r2] exI [of _ w2])
        (simp add: reap_body_def s p q)
  qed
  have "?Q ((r, wk'), w')"
  proof (rule loop_rule [OF run [unfolded reap_io_uring_cq_def], where I = ?I])
    show "?I (wk, 0, w)" using c by simp
  next
    fix s s' assume "?I s" and "reap_body rg want s = Inl s'"
    with body [of s] show "?I s'" by (auto split: if_splits)
  next
    fix s q assume "?I s" and "reap_body rg want s = Inr q"
    with body [of s] show "?Q q" by (auto split: if_splits)
  qed
  then show ?thesis by simp
qed

text \<open>At least \<open>n\<close> units are free; an error leaves only the accounting.\<close>

definition has_credit :: "('w \<Rightarrow> nat) \<Rightarrow> ('w \<Rightarrow> nat) \<Rightarrow> nat \<Rightarrow> nat \<Rightarrow> io_worker \<Rightarrow> 'w \<Rightarrow> bool" where
  "has_credit outst peak depth n wk w \<longleftrightarrow>
     credit outst peak depth wk w \<and> n \<le> unat (free_io_units_io_uring wk)"

definition result_credit ::
  "('w \<Rightarrow> nat) \<Rightarrow> ('w \<Rightarrow> nat) \<Rightarrow> nat \<Rightarrow> nat \<Rightarrow> 'w step_result \<Rightarrow> bool" where
  "result_credit outst peak depth n q \<longleftrightarrow> (case q of None \<Rightarrow> True
     | Some ((ok, wk), w) \<Rightarrow> credit outst peak depth wk w \<and> (ok \<longrightarrow> n \<le> unat (free_io_units_io_uring wk)))"

lemma reap_result_credit:
  assumes "ring_law rg outst peak" and "has_credit outst peak depth n wk w"
    and "reap_io_uring_cq rg wk want w = Some ((r, wk'), w')"
  shows "credit outst peak depth wk' w'" and "\<not> r < 0 \<Longrightarrow> has_credit outst peak depth (n + nat want) wk' w'"
  using reap_credit [OF assms(1) _ assms(3), of depth] assms(2)
  by (auto simp: has_credit_def intro: add_mono nat_mono)

lemma get_sqe_loop_credit:
  assumes law: "ring_law rg outst peak" and start: "has_credit outst peak depth n wk w"
    and run: "loop (get_sqe_body rg) (wk, w) = Some q"
  shows "result_credit outst peak depth n q"
proof (rule loop_rule [OF run, where I = "\<lambda>(wk, w). has_credit outst peak depth n wk w"])
  fix s s' assume "case s of (wk, w) \<Rightarrow> has_credit outst peak depth n wk w" and b: "get_sqe_body rg s = Inl s'"
  then obtain wk w w1 r wk' w2 where h: "has_credit outst peak depth n wk w" and
    s: "s = (wk, w)" "s' = (wk', w2)" and g: "rg_get_sqe rg w = (False, w1)" and
    r: "reap_io_uring_cq rg wk 0 w1 = Some ((r, wk'), w2)" "\<not> r < 0"
    by (auto simp: get_sqe_body_def split: prod.splits if_splits option.splits)
  have "has_credit outst peak depth n wk w1"
    using h ring_lawD(4) [OF law g] by (simp add: has_credit_def credit_def)
  from reap_result_credit(2) [OF law this r] s show "case s' of (wk, w) \<Rightarrow> has_credit outst peak depth n wk w"
    by simp
next
  fix s q assume h: "case s of (wk, w) \<Rightarrow> has_credit outst peak depth n wk w" and b: "get_sqe_body rg s = Inr q"
  obtain wk w where s: "s = (wk, w)" by (cases s)
  obtain got w1 where g: "rg_get_sqe rg w = (got, w1)" by (metis prod.exhaust)
  have c: "has_credit outst peak depth n wk w1"
    using h s ring_lawD(4) [OF law g] by (simp add: has_credit_def credit_def)
  show "result_credit outst peak depth n q"
    using b c reap_result_credit(1) [OF law c]
    by (auto simp: get_sqe_body_def s g result_credit_def has_credit_def split: if_splits option.splits)
qed (use start in simp)

lemma submit_loop_credit:
  assumes law: "ring_law rg outst peak" and start: "has_credit outst peak depth n wk w"
    and run: "loop (submit_body rg) (wk, w) = Some q"
  shows "result_credit outst peak depth n q"
proof (rule loop_rule [OF run, where I = "\<lambda>(wk, w). has_credit outst peak depth n wk w"])
  fix s s' assume h: "case s of (wk, w) \<Rightarrow> has_credit outst peak depth n wk w" and b: "submit_body rg s = Inl s'"
  obtain wk w where s: "s = (wk, w)" by (cases s)
  obtain ret w1 where g: "rg_submit rg w = (ret, w1)" by (metis prod.exhaust)
  have c: "has_credit outst peak depth n wk w1"
    using h s ring_lawD(7) [OF law g] by (simp add: has_credit_def credit_def)
  show "case s' of (wk, w) \<Rightarrow> has_credit outst peak depth n wk w"
    using b c reap_result_credit(2) [OF law c, of 0]
    by (auto simp: submit_body_def s g has_credit_def credit_def split: if_splits option.splits)
next
  fix s q assume h: "case s of (wk, w) \<Rightarrow> has_credit outst peak depth n wk w" and b: "submit_body rg s = Inr q"
  obtain wk w where s: "s = (wk, w)" by (cases s)
  obtain ret w1 where g: "rg_submit rg w = (ret, w1)" by (metis prod.exhaust)
  have c: "has_credit outst peak depth n wk w1"
    using h s ring_lawD(7) [OF law g] by (simp add: has_credit_def credit_def)
  show "result_credit outst peak depth n q"
    using b c h reap_result_credit(1) [OF law c]
    by (auto simp: submit_body_def s g result_credit_def has_credit_def split: if_splits option.splits)
qed (use start in simp)

lemma bindL_credit:
  assumes "\<And>q. m = Some q \<Longrightarrow> result_credit outst peak depth n q"
    and "\<And>wk w. has_credit outst peak depth n wk w \<Longrightarrow> result_credit outst peak depth k (f wk w)"
  shows "result_credit outst peak depth k (bindL m f)"
proof (cases "\<exists>ok wk w. m = Some (Some ((ok, wk), w))")
  case True
  then obtain ok wk w where m: "m = Some (Some ((ok, wk), w))" by blast
  then show ?thesis
    using assms(1) [OF m] assms(2) [of wk w]
    by (cases ok) (auto simp: bindL_def result_credit_def has_credit_def)
next
  case False
  then have "bindL m f = None" by (auto simp: bindL_def split: option.splits bool.splits)
  then show ?thesis by (simp add: result_credit_def)
qed

lemma prep_credit:
  assumes law: "ring_law rg outst peak" and h: "has_credit outst peak depth 1 wk w"
  shows "has_credit outst peak depth 0
     (wk\<lparr>cur_offset := off, free_io_units_io_uring := free_io_units_io_uring wk - 1, sqe_queued := q\<rparr>)
     (rg_prep rg fd base n off' w)"
proof -
  have "1 \<le> unat (free_io_units_io_uring wk)" using h by (simp add: has_credit_def)
  then have "Suc (unat (free_io_units_io_uring wk - 1)) = unat (free_io_units_io_uring wk)"
    by (metis Suc_pred less_eq_Suc_le One_nat_def unat_minus_one unat_0 not_one_le_zero)
  then show ?thesis
    using h ring_lawD(5,6) [OF law] by (simp add: has_credit_def credit_def)
qed

lemma enqueue_write_credit:
  assumes law: "ring_law rg outst peak" and h: "has_credit outst peak depth 1 wk w"
  shows "result_credit outst peak depth 1 (enqueue_write cfg rg base wk w)"
  unfolding enqueue_write_def Let_def
proof (rule bindL_credit [where n = 1])
  show "result_credit outst peak depth 1 q" if "loop (get_sqe_body rg) (wk, w) = Some q" for q
    by (rule get_sqe_loop_credit [OF law h that])
next
  fix wk1 w1 assume h1: "has_credit outst peak depth 1 wk1 w1"
  let ?wk2 = "wk1\<lparr>cur_offset := next_offset (b_bs cfg) (b_file_size cfg) (cur_offset wk1),
      free_io_units_io_uring := free_io_units_io_uring wk1 - 1, sqe_queued := sqe_queued wk1 + 1\<rparr>"
  let ?w2 = "rg_prep rg (wk_fd wk1) base (b_bs cfg) (cur_offset wk1) w1"
  have h2: "has_credit outst peak depth 0 ?wk2 ?w2" by (rule prep_credit [OF law h1])
  show "result_credit outst peak depth 1
      (bindL (if sqe_queued ?wk2 = b_batch cfg then loop (submit_body rg) (?wk2, ?w2)
              else Some (Some ((True, ?wk2), ?w2)))
        (\<lambda>wk3 w3. if free_io_units_io_uring wk3 = 0
           then case reap_io_uring_cq rg wk3 1 w3 of None \<Rightarrow> None
                | Some ((r, wk4), w4) \<Rightarrow> Some ((\<not> r < 0, wk4), w4)
           else Some ((True, wk3), w3)))"
  proof (rule bindL_credit [where n = 0])
    fix q assume "(if sqe_queued ?wk2 = b_batch cfg then loop (submit_body rg) (?wk2, ?w2)
        else Some (Some ((True, ?wk2), ?w2))) = Some q"
    then show "result_credit outst peak depth 0 q"
      using submit_loop_credit [OF law h2] h2
      by (auto simp: result_credit_def has_credit_def split: if_splits)
  next
    fix wk3 w3 assume h3: "has_credit outst peak depth 0 wk3 w3"
    show "result_credit outst peak depth 1 (if free_io_units_io_uring wk3 = 0
           then case reap_io_uring_cq rg wk3 1 w3 of None \<Rightarrow> None
                | Some ((r, wk4), w4) \<Rightarrow> Some ((\<not> r < 0, wk4), w4)
           else Some ((True, wk3), w3))"
      using reap_result_credit [OF law h3, of 1] h3
      by (auto simp: result_credit_def has_credit_def Suc_le_eq unat_gt_0 split: option.split)
  qed
qed

lemma uring_loop_credit:
  assumes law: "ring_law rg outst peak" and start: "has_credit outst peak depth 1 wk w"
    and run: "loop (uring_iteration cfg rg buffer) (wk, w) = Some q"
  shows "result_credit outst peak depth 1 q"
proof (rule loop_rule [OF run, where I = "\<lambda>(wk, w). has_credit outst peak depth 1 wk w"])
  fix s s' assume h: "case s of (wk, w) \<Rightarrow> has_credit outst peak depth 1 wk w"
    and b: "uring_iteration cfg rg buffer s = Inl s'"
  obtain wk w where s: "s = (wk, w)" by (cases s)
  obtain now w1 where n: "rg_now rg w = (now, w1)" by (metis prod.exhaust)
  have h1: "has_credit outst peak depth 1 wk w1"
    using h s ring_lawD(1) [OF law n] by (simp add: has_credit_def credit_def)
  show "case s' of (wk, w) \<Rightarrow> has_credit outst peak depth 1 wk w"
    using b enqueue_write_credit [OF law h1, of cfg buffer]
    by (auto simp: uring_iteration_def s n result_credit_def has_credit_def split: if_splits option.splits)
next
  fix s q assume h: "case s of (wk, w) \<Rightarrow> has_credit outst peak depth 1 wk w"
    and b: "uring_iteration cfg rg buffer s = Inr q"
  obtain wk w where s: "s = (wk, w)" by (cases s)
  obtain now w1 where n: "rg_now rg w = (now, w1)" by (metis prod.exhaust)
  have h1: "has_credit outst peak depth 1 wk w1"
    using h s ring_lawD(1) [OF law n] by (simp add: has_credit_def credit_def)
  show "result_credit outst peak depth 1 q"
    using b h1 enqueue_write_credit [OF law h1, of cfg buffer]
    by (auto simp: uring_iteration_def s n result_credit_def has_credit_def credit_def
        split: if_splits option.splits)
qed (use start in simp)

text \<open>Opening the file, sizing it and allocating the buffer leave the ring alone.\<close>

definition sys_frame :: "'w bench_sys \<Rightarrow> ('w \<Rightarrow> 'a) \<Rightarrow> bool" where
  "sys_frame sys v \<longleftrightarrow>
     (\<forall>f w r w'. by_open sys f w = (r, w') \<longrightarrow> v w' = v w) \<and>
     (\<forall>fd w r w'. by_fstat sys fd w = (r, w') \<longrightarrow> v w' = v w) \<and>
     (\<forall>fd n w r w'. by_fallocate sys fd n w = (r, w') \<longrightarrow> v w' = v w) \<and>
     (\<forall>d w r w'. by_ring_init sys d w = (r, w') \<longrightarrow> v w' = v w) \<and>
     (\<forall>n w r w'. by_memalign sys n w = (r, w') \<longrightarrow> v w' = v w)"

lemma sys_frameD:
  assumes "sys_frame sys v"
  shows "by_open sys f w = (r, w') \<Longrightarrow> v w' = v w"
    and "by_fstat sys fd w = (q, w') \<Longrightarrow> v w' = v w"
    and "by_fallocate sys fd n w = (r, w') \<Longrightarrow> v w' = v w"
    and "by_ring_init sys d w = (r, w') \<Longrightarrow> v w' = v w"
    and "by_memalign sys n w = (u, w') \<Longrightarrow> v w' = v w"
  using assms unfolding sys_frame_def by metis+

lemma open_test_file_frame:
  assumes fr: "sys_frame sys v" and run: "open_test_file cfg sys wk w = ((ok, wk'), w')"
  shows "v w' = v w \<and> (\<exists>fd. wk' = wk\<lparr>wk_fd := fd\<rparr>)"
proof -
  obtain fd w1 where c1: "by_open sys (b_file cfg) w = (fd, w1)" by (metis prod.exhaust)
  obtain e sz w2 where c2: "by_fstat sys fd w1 = ((e, sz), w2)" by (metis prod.exhaust)
  obtain e2 w3 where c3: "by_fallocate sys fd (b_file_size cfg) w2 = (e2, w3)" by (metis prod.exhaust)
  obtain e3 w4 where c4: "by_ring_init sys (b_uring_qd cfg) w3 = (e3, w4)" by (metis prod.exhaust)
  obtain e4 w5 where c5: "by_ring_init sys (b_uring_qd cfg) w2 = (e4, w5)" by (metis prod.exhaust)
  have v: "v w1 = v w" "v w2 = v w" "v w3 = v w" "v w4 = v w" "v w5 = v w"
    using sys_frameD [OF fr] c1 c2 c3 c4 c5 by metis+
  show ?thesis
    using run v unfolding open_test_file_def
    by (auto simp: c1 c2 c3 c4 c5 Let_def split: if_splits)
qed

lemma launch_has_credit:
  assumes "0 < b_uring_qd cfg" and "is_int (b_uring_qd cfg)"
    and "free_io_units_io_uring wk = free_io_units_io_uring (launch_worker cfg garbage)"
    and "outst w = 0" and "peak w = 0"
  shows "has_credit outst peak (nat (b_uring_qd cfg)) 1 wk w"
proof -
  have "uint (word_of_int (b_uring_qd cfg) :: u64) = b_uring_qd cfg"
    using assms(1,2) by (intro uint64_nonneg) (auto simp: is_int_def)
  then have "unat (word_of_int (b_uring_qd cfg) :: u64) = nat (b_uring_qd cfg)" by (metis nat_uint_eq)
  moreover have "nat (b_uring_qd cfg) < 2 ^ 64"
    using assms(1,2) by (simp add: is_int_def nat_less_iff)
  ultimately show ?thesis
    using assms by (simp add: has_credit_def credit_def launch_worker_def Let_def)
qed

section \<open>A batch that is never full\<close>

text \<open>The kernel completes only what was submitted; \<open>subm\<close> counts that.\<close>

definition no_free_completions :: "'w ring_ops \<Rightarrow> ('w \<Rightarrow> nat) \<Rightarrow> bool" where
  "no_free_completions rg subm \<longleftrightarrow>
     (\<forall>w cqes w'. rg_peek rg w = (cqes, w') \<longrightarrow> subm w' = subm w \<and> length cqes \<le> subm w) \<and>
     (\<forall>fd a n off w. subm (rg_prep rg fd a n off w) = subm w) \<and>
     (\<forall>w b w'. rg_get_sqe rg w = (b, w') \<longrightarrow> subm w' = subm w)"

lemma reap_without_submissions:
  assumes law: "no_free_completions rg subm" and "subm w = 0" and "0 < want"
  shows "reap_io_uring_cq rg wk want w = None"
  unfolding reap_io_uring_cq_def
proof (rule loop_diverges [where I = "\<lambda>(wk :: io_worker, r :: nat, w). subm w = 0 \<and> r = 0"])
  fix s assume "case s of (wk :: io_worker, r :: nat, w) \<Rightarrow> subm w = 0 \<and> r = 0"
  then obtain wk w where s: "s = (wk, 0, w)" and z: "subm w = 0" by auto
  obtain cqes w1 where p: "rg_peek rg w = (cqes, w1)" by (metis prod.exhaust)
  then have "length cqes \<le> 0" "subm w1 = 0" using law z unfolding no_free_completions_def by metis+
  then have "cqes = []" "subm w1 = 0" by simp_all
  then show "\<exists>s'. reap_body rg want s = Inl s' \<and> (case s' of (wk, r, w) \<Rightarrow> subm w = 0 \<and> r = 0)"
    using p assms(3) by (simp add: reap_body_def s)
qed (use assms(2) in simp)

section \<open>A concrete ring\<close>

text \<open>
  A ring for the witnesses: the world is the time, the entries outstanding, the most there were, and
  the entries submitted; a reading of the clock lasts one second and a pass sees every submitted entry.
\<close>

type_synonym ring_world = "int \<times> nat \<times> nat \<times> nat"

definition mem_ring :: "ring_world ring_ops" where
  "mem_ring = \<lparr>rg_now = (\<lambda>(t, n, p, s). (t, (t + 1000000000, n, p, s))),
     rg_peek = (\<lambda>(t, n, p, s). (replicate (min n s) 0, (t, n, p, s))),
     rg_seen = (\<lambda>(t, n, p, s). (t, n - 1, p, s - 1)),
     rg_get_sqe = (\<lambda>w. (True, w)),
     rg_prep = (\<lambda>fd a len off (t, n, p, s). (t, Suc n, max p (Suc n), s)),
     rg_submit = (\<lambda>(t, n, p, s). (1, (t, n, p, Suc s)))\<rparr>"

lemma mem_ring_simps:
  "rg_now mem_ring (t, n, p, s) = (t, (t + 1000000000, n, p, s))" "rg_get_sqe mem_ring w = (True, w)"
  "rg_prep mem_ring fd a len off (t, n, p, s) = (t, Suc n, max p (Suc n), s)"
  "rg_submit mem_ring (t, n, p, s) = (1, (t, n, p, Suc s))"
  by (simp_all add: mem_ring_def)

definition mem_sys :: "ring_world bench_sys" where
  "mem_sys = \<lparr>by_open = (\<lambda>_ w. (3, w)), by_fstat = (\<lambda>_ w. ((0, 0), w)), by_fallocate = (\<lambda>_ _ w. (0, w)),
     by_ring_init = (\<lambda>_ w. (0, w)), by_memalign = (\<lambda>_ w. (4096, w))\<rparr>"

lemma mem_ring_law: "ring_law mem_ring (\<lambda>(t, n, p, s). n) (\<lambda>(t, n, p, s). p)"
  "no_free_completions mem_ring (\<lambda>(t, n, p, s). s)" "sys_frame mem_sys v"
  by (auto simp: ring_law_def no_free_completions_def mem_ring_def sys_frame_def mem_sys_def)

definition zero_worker :: io_worker where
  "zero_worker = \<lparr>worker_id = 0, sqe_queued = 0, rdma_wr_posted = 0, cur_offset = 0, io_completed = 0,
     free_io_units_io_uring = 0, free_io_units_rdma = 0, wk_fd = 0, wk_stopped = False, start_time = 0,
     rmt_addr = 0, rmt_size = 0, rmt_rkey = 0, data_pool = 0, data_pool_size = 0\<rparr>"

definition sample_bench :: "int \<Rightarrow> int \<Rightarrow> int \<Rightarrow> bench_cfg" where
  "sample_bench qd batch rt =
     bench_options 4 ''/mnt/test'' 1 qd 128 rt batch 32 False ''10.10.1.2'' 9876 False False"

text \<open>A run of one second: one write, submitted and left to the kernel.\<close>

lemma mem_ring_run:
  "\<exists>ok wk' w'. do_io_io_uring (sample_bench 2 1 1) mem_sys mem_ring (launch_worker (sample_bench 2 1 1) zero_worker)
     (0, 0, 0, 0) = Some ((ok, wk'), w')"
proof -
  let ?cfg = "sample_bench 2 1 1"
  have get: "loop (get_sqe_body mem_ring) (wk, w) = Some (Some ((True, wk), w))" for wk w
    by (rule loop_exit) (simp add: get_sqe_body_def mem_ring_def)
  have sub: "loop (submit_body mem_ring) (wk, (t, n, p, s)) =
      Some (Some ((True, wk\<lparr>sqe_queued := 0\<rparr>), (t, n, p, Suc s)))" if "sqe_queued wk = 1" for wk t n p s
  proof -
    have "submit_body mem_ring (wk, (t, n, p, s)) = Inl (wk\<lparr>sqe_queued := 0\<rparr>, (t, n, p, Suc s))"
      using that by (simp add: submit_body_def mem_ring_def)
    moreover have "loop (submit_body mem_ring) (wk\<lparr>sqe_queued := 0\<rparr>, (t, n, p, Suc s)) =
        Some (Some ((True, wk\<lparr>sqe_queued := 0\<rparr>), (t, n, p, Suc s)))"
      by (rule loop_exit) (simp add: submit_body_def)
    ultimately show ?thesis by (simp add: loop_next [of "submit_body mem_ring"])
  qed
  let ?wk = "(launch_worker ?cfg zero_worker)\<lparr>wk_fd := 3, start_time := 0\<rparr>"
  let ?wk' = "?wk\<lparr>cur_offset := 4096, free_io_units_io_uring := 1, sqe_queued := 0\<rparr>"
  have "uring_iteration ?cfg mem_ring 4096 (?wk, (1000000000, 0, 0, 0)) = Inl (?wk', (2000000000, 1, 1, 1))"
    by (simp add: uring_iteration_def enqueue_write_def bindL_def get sub Let_def runtime_exceeded_def
        signed_divide_int_def sample_bench_def bench_options_def launch_worker_def zero_worker_def
        next_offset_def mem_ring_simps)
  moreover have "loop (uring_iteration ?cfg mem_ring 4096) (?wk', (2000000000, 1, 1, 1)) =
      Some (Some ((True, ?wk'\<lparr>wk_stopped := True\<rparr>), (3000000000, 1, 1, 1)))"
    by (rule loop_exit) (simp add: uring_iteration_def runtime_exceeded_def signed_divide_int_def
        mem_ring_simps sample_bench_def bench_options_def)
  ultimately have "loop (uring_iteration ?cfg mem_ring 4096) (?wk, (1000000000, 0, 0, 0)) =
      Some (Some ((True, ?wk'\<lparr>wk_stopped := True\<rparr>), (3000000000, 1, 1, 1)))"
    by (simp add: loop_next [of "uring_iteration ?cfg mem_ring 4096"])
  then show ?thesis
    by (auto simp: do_io_io_uring_def open_test_file_def mem_sys_def Let_def bindL_def mem_ring_simps)
qed

section \<open>Properties\<close>

text \<open>C33: the file offsets of the worker: started at 0, the k-th write goes to block
  \<open>k mod ((file_size - 1) div bs)\<close>, and every write ends strictly before the end of the file; when the
  block size divides the file size the last block of the file is never written.\<close>

theorem bench_offsets:
  assumes "offset_valid bs lim" and "unat bs < unat lim"
  shows "unat ((next_offset bs lim ^^ k) 0) = (k mod ((unat lim - 1) div unat bs)) * unat bs \<and>
     unat ((next_offset bs lim ^^ k) 0) + unat bs < unat lim \<and>
     (unat bs dvd unat lim \<longrightarrow> unat ((next_offset bs lim ^^ k) 0) \<noteq> unat lim - unat bs)"
proof -
  have b: "0 < unat bs" by (rule file_cursor.blk_pos [OF assms(1)])
  have "1 \<le> (unat lim - 1) div unat bs" using assms(2) b by (simp add: less_eq_div_iff_mult_less_eq)
  then have "file_cursor.slots bs lim = (unat lim - 1) div unat bs" by (simp add: file_cursor.slots_def)
  then show ?thesis
    using file_cursor.pos_iterate [OF assms(1), of k] file_cursor.pos_in_range [OF assms, of k] by auto
qed

theorem bench_offsets_witness:
  "unat ((next_offset 4096 40960 ^^ 9) 0) = (9 mod ((40960 - 1) div 4096)) * 4096 \<and>
     unat ((next_offset 4096 40960 ^^ 9) 0) + 4096 < 40960 \<and>
     unat ((next_offset 4096 40960 ^^ 9) 0) \<noteq> 40960 - 4096"
  using bench_offsets [of 4096 40960 9] by (simp add: offset_valid_def)

text \<open>C7: flow control of the io_uring worker: a launched worker that runs to its end, however the kernel
  orders completions and however submissions fail, never has more entries outstanding than the queue
  depth, and at the end its free units and the outstanding entries add up to the depth.\<close>

theorem bench_credit:
  assumes "ring_law rg outst peak" and "sys_frame sys (\<lambda>w. (outst w, peak w))"
    and "0 < b_uring_qd cfg" and "is_int (b_uring_qd cfg)" and "outst w = 0" and "peak w = 0"
    and "do_io_io_uring cfg sys rg (launch_worker cfg garbage) w = Some ((ok, wk'), w')"
  shows "peak w' \<le> nat (b_uring_qd cfg) \<and>
     unat (free_io_units_io_uring wk') + outst w' = nat (b_uring_qd cfg)"
proof -
  let ?wk = "launch_worker cfg garbage" and ?d = "nat (b_uring_qd cfg)"
  obtain ok1 wk1 w1 where o: "open_test_file cfg sys ?wk w = ((ok1, wk1), w1)" by (metis prod.exhaust)
  obtain buf w2 where m: "by_memalign sys (b_bs cfg) w1 = (buf, w2)" by (metis prod.exhaust)
  obtain now w3 where n: "rg_now rg w2 = (now, w3)" by (metis prod.exhaust)
  obtain fd where fd: "wk1 = ?wk\<lparr>wk_fd := fd\<rparr>" and z1: "outst w1 = 0" "peak w1 = 0"
    using open_test_file_frame [OF assms(2) o] assms(5,6) by auto
  have z2: "outst w2 = 0" "peak w2 = 0" using sys_frameD(5) [OF assms(2) m] z1 by auto
  have z3: "outst w3 = 0" "peak w3 = 0" using ring_lawD(1) [OF assms(1) n] z2 by auto
  have c: "credit outst peak ?d wk1 w1" "credit outst peak ?d wk1 w2"
    using launch_has_credit [OF assms(3,4), where outst = outst and peak = peak and wk = wk1 and garbage = garbage]
      z1 z2 fd unfolding has_credit_def by simp_all
  have "result_credit outst peak ?d 1 (do_io_io_uring cfg sys rg ?wk w)"
  proof (cases "ok1 \<and> buf \<noteq> 0")
    case True
    have h3: "has_credit outst peak ?d 1 (wk1\<lparr>start_time := now\<rparr>) w3"
      using launch_has_credit [OF assms(3,4), where outst = outst and peak = peak
          and wk = "wk1\<lparr>start_time := now\<rparr>" and w = w3 and garbage = garbage] fd z3 by simp
    have "result_credit outst peak ?d 1 (bindL (loop (uring_iteration cfg rg buf) (wk1\<lparr>start_time := now\<rparr>, w3))
        (\<lambda>wk2 w4. Some ((True, wk2), w4)))"
    proof (rule bindL_credit [where n = 1])
      show "result_credit outst peak ?d 1 q"
        if "loop (uring_iteration cfg rg buf) (wk1\<lparr>start_time := now\<rparr>, w3) = Some q" for q
        by (rule uring_loop_credit [OF assms(1) h3 that])
    qed (simp add: result_credit_def has_credit_def)
    then show ?thesis using True by (simp add: do_io_io_uring_def o m n)
  next
    case False
    then show ?thesis using c by (auto simp: do_io_io_uring_def o m result_credit_def)
  qed
  then show ?thesis using assms(7) by (auto simp: result_credit_def credit_def)
qed

theorem bench_credit_witness:
  "\<exists>ok wk' w'. do_io_io_uring (sample_bench 2 1 1) mem_sys mem_ring (launch_worker (sample_bench 2 1 1) zero_worker)
       (0, 0, 0, 0) = Some ((ok, wk'), w') \<and>
     (\<lambda>(t, n, p, s). p) w' \<le> nat 2 \<and>
     unat (free_io_units_io_uring wk') + (\<lambda>(t, n, p, s). n) w' = nat 2"
proof -
  obtain ok wk' w' where run: "do_io_io_uring (sample_bench 2 1 1) mem_sys mem_ring
      (launch_worker (sample_bench 2 1 1) zero_worker) (0, 0, 0, 0) = Some ((ok, wk'), w')"
    using mem_ring_run by blast
  have qd: "b_uring_qd (sample_bench 2 1 1) = 2" by (simp add: sample_bench_def bench_options_def)
  from bench_credit [OF mem_ring_law(1,3) _ _ _ _ run] run show ?thesis
    by (auto simp: qd is_int_def)
qed

text \<open>a batch larger than the queue depth stops the worker for ever: when the last free unit is
  taken while the batch is not full and nothing has been submitted yet, the wait for a completion
  never ends.\<close>

theorem bench_batch_livelock:
  assumes "no_free_completions rg subm" and "rg_get_sqe rg w = (True, w1)" and "subm w = 0"
    and "free_io_units_io_uring wk = 1" and "sqe_queued wk + 1 \<noteq> b_batch cfg"
  shows "enqueue_write cfg rg base wk w = None"
proof -
  have g: "loop (get_sqe_body rg) (wk, w) = Some (Some ((True, wk), w1))"
    using assms(2) by (intro loop_exit) (simp add: get_sqe_body_def)
  let ?w2 = "rg_prep rg (wk_fd wk) base (b_bs cfg) (cur_offset wk) w1"
  have "subm ?w2 = 0" using assms(1,2,3) unfolding no_free_completions_def by metis
  then have "reap_io_uring_cq rg wk' 1 ?w2 = None" for wk'
    by (intro reap_without_submissions [OF assms(1)]) simp_all
  then show ?thesis
    using assms(4,5) by (simp add: enqueue_write_def g bindL_def Let_def)
qed

theorem bench_batch_livelock_witness:
  "enqueue_write (sample_bench 1 32 30) mem_ring 4096 (launch_worker (sample_bench 1 32 30) zero_worker) (0, 0, 0, 0)
     = None"
  by (rule bench_batch_livelock [OF mem_ring_law(2)])
    (simp_all add: mem_ring_def launch_worker_def sample_bench_def bench_options_def zero_worker_def Let_def)

text \<open>the block size option is exact below 4 GiB and wraps there: \<open>-bs 4194304\<close> asks for a block of
  size 0.\<close>

theorem bench_bs_option:
  assumes "0 \<le> bs" and "is_int bs"
  shows "uint (b_bs (bench_options bs file filesize qd rqd rt batch rbatch client host port rdma event))
     = (bs * 1024) mod 2 ^ 32"
proof -
  have "uint (word_of_int bs * 1024 :: u32) = (bs * 1024) mod 2 ^ 32"
    by (simp add: uint_word_ariths uint_word_of_int_eq take_bit_eq_mod mod_simps)
  then show ?thesis
    unfolding bench_options_def by (simp add: uint64_nonneg)
qed

theorem bench_bs_option_witness:
  "uint (b_bs (bench_options 4194304 ''/mnt/test'' 10 128 128 30 32 32 False ''10.10.1.2'' 9876 False False))
     = (4194304 * 1024) mod 2 ^ 32"
  by (rule bench_bs_option) (simp_all add: is_int_def)

end
