(* ===== verification/Bench_Rdma.thy ===== *)
theory Bench_Rdma
  imports Bench_Worker
begin

text \<open>
  The userspace RDMA worker of \<^verbatim>\<open>src/src/benchmark.cc\<close>: the set-up of the connection, the exchange of
  the token that describes the server's buffer, the client's loop of RDMA reads whose completions are
  written to the test file through io_uring. The calls into librdmacm and libibverbs are
  the fields of \<open>rdma_ops\<close>; the path from a completion to the ring is that of the theory
  \<open>Bench_Worker\<close>: its \<open>rg_prep\<close> gets what the \<^verbatim>\<open>iovec\<close> holds when an entry is prepared (the code hands
  over a pointer to a local variable, which the kernel reads at submission). Handles (\<^verbatim>\<open>cm_id\<close>, \<^verbatim>\<open>pd\<close>, \<^verbatim>\<open>cq\<close>, \<^verbatim>\<open>qp\<close>) are part of the world.
\<close>

section \<open>The calls\<close>

datatype cm_event = ADDR_RESOLVED | ROUTE_RESOLVED | CONNECT_REQUEST | ESTABLISHED | OTHER_EVENT

datatype rdma_call =
    Create_event_channel | Create_id | Create_listen_id | Resolve_addr string u16 | Resolve_route
  | Bind_addr string u16 | Listen int | Alloc_pd | Create_comp_channel | Create_cq int | Req_notify_cq
  | Create_qp u32 | Query_device | Connect | Accept | Reg_token_mr | Post_token_recv
  | Post_end_recv u64 | Dereg_token_mr | Ack_cq_events u32

type_synonym token = "u64 \<times> u32 \<times> u32"   \<comment> \<open>\<^verbatim>\<open>rdma_rmt_buf\<close>: address, size, key\<close>

record read_wr =
  wr_local :: u64
  wr_remote :: u64
  wr_len :: u32
  wr_id :: u64

text \<open>
  \<open>rd_call\<close> returns 0 for success (a non-null handle). \<open>rd_poll\<close> returns \<open>None\<close> for an error, else the
  completions, each with whether it succeeded and its \<^verbatim>\<open>wr_id\<close>. \<open>rd_token\<close> is what the receive of the
  token left in the worker's memory.
\<close>

record 'w rdma_ops =
  rd_call :: "rdma_call \<Rightarrow> 'w \<Rightarrow> int \<times> 'w"
  rd_event :: "'w \<Rightarrow> (int \<times> cm_event) \<times> 'w"
  rd_cq_event :: "'w \<Rightarrow> (int \<times> bool) \<times> 'w"             \<comment> \<open>result, and whether it is the worker's queue\<close>
  rd_poll :: "nat \<Rightarrow> 'w \<Rightarrow> (bool \<times> u64) list option \<times> 'w"
  rd_memalign :: "u64 \<Rightarrow> u64 \<Rightarrow> 'w \<Rightarrow> u64 \<times> 'w"
  rd_reg_mr :: "u64 \<Rightarrow> u32 \<Rightarrow> 'w \<Rightarrow> u32 option \<times> 'w"      \<comment> \<open>the key of the region\<close>
  rd_token :: "'w \<Rightarrow> token"
  rd_send_token :: "token \<Rightarrow> 'w \<Rightarrow> int \<times> 'w"
  rd_post_read :: "read_wr \<Rightarrow> 'w \<Rightarrow> int \<times> 'w"
  rd_send_end :: "u64 \<Rightarrow> 'w \<Rightarrow> int \<times> 'w"

section \<open>Setting up the connection\<close>

definition get_next_channel_event :: "'w rdma_ops \<Rightarrow> cm_event \<Rightarrow> 'w \<Rightarrow> bool \<times> 'w" where
  "get_next_channel_event ra wait_event w =
     (case rd_event ra w of ((ret, ev), w1) \<Rightarrow>
      if ret \<noteq> 0 then (False, w1) else if ev \<noteq> wait_event then (False, w1) else (True, w1))"

text \<open>The straight line of calls and expected events of \<^verbatim>\<open>rdma_setup\<close>; the first that fails ends it.\<close>

datatype setup_step = Call rdma_call | Event cm_event

primrec run_steps :: "'w rdma_ops \<Rightarrow> setup_step list \<Rightarrow> 'w \<Rightarrow> bool \<times> 'w" where
  "run_steps ra [] w = (True, w)"
| "run_steps ra (x # xs) w =
     (case (case x of Call c \<Rightarrow> (case rd_call ra c w of (ret, w1) \<Rightarrow> (ret = 0, w1))
                    | Event e \<Rightarrow> get_next_channel_event ra e w) of (ok, w1) \<Rightarrow>
      if ok then run_steps ra xs w1 else (False, w1))"

text \<open>\<^verbatim>\<open>htons(base_port + worker_id)\<close>: the sum is truncated to 16 bits.\<close>

definition worker_port :: "bench_cfg \<Rightarrow> io_worker \<Rightarrow> u16" where
  "worker_port cfg wk = word_of_int (b_port cfg + worker_id wk)"

definition setup_steps :: "bench_cfg \<Rightarrow> io_worker \<Rightarrow> setup_step list" where
  "setup_steps cfg wk =
     Call Create_event_channel #
     (if b_client cfg then
        [Call Create_id, Call (Resolve_addr (b_host cfg) (worker_port cfg wk)), Event ADDR_RESOLVED,
         Call Resolve_route, Event ROUTE_RESOLVED]
      else
        [Call Create_listen_id, Call (Bind_addr (b_host cfg) (worker_port cfg wk)), Call (Listen 3),
         Event CONNECT_REQUEST]) @
     [Call Alloc_pd, Call Create_comp_channel, Call (Create_cq (b_rdma_qd cfg * 2)), Call Req_notify_cq,
      Call (Create_qp (word_of_int (b_rdma_qd cfg)))]"

definition rdma_setup :: "bench_cfg \<Rightarrow> 'w rdma_ops \<Rightarrow> io_worker \<Rightarrow> 'w \<Rightarrow> bool \<times> 'w" where
  "rdma_setup cfg ra wk w = run_steps ra (setup_steps cfg wk) w"

section \<open>The handshake\<close>

text \<open>\<^verbatim>\<open>do ret = ibv_poll_cq(...) while (ret < 1)\<close>, which also repeats on an error.\<close>

definition poll_one_body :: "'w rdma_ops \<Rightarrow> 'w \<Rightarrow> 'w + (bool \<times> 'w)" where
  "poll_one_body ra w = (case rd_poll ra 1 w of
     (Some ((ok, _) # _), w1) \<Rightarrow> Inr (ok, w1)
   | (_, w1) \<Rightarrow> Inl w1)"

text \<open>Waiting for the completion of the token: \<open>None\<close> when it never comes.\<close>

definition await_token :: "'w rdma_ops \<Rightarrow> 'w \<Rightarrow> (bool \<times> 'w) option" where
  "await_token ra w =
     (case rd_cq_event ra w of ((ret, same), w1) \<Rightarrow>
      if ret \<noteq> 0 \<or> \<not> same then Some (False, w1)
      else case rd_call ra Req_notify_cq w1 of (ret, w2) \<Rightarrow>
      if ret \<noteq> 0 then Some (False, w2)
      else (case loop (poll_one_body ra) w2 of
              None \<Rightarrow> None
            | Some (ok, w3) \<Rightarrow>
                if \<not> ok then Some (False, w3)
                else (case rd_call ra (Ack_cq_events 1) w3 of (_, w4) \<Rightarrow> Some (True, w4))))"

definition client_handshake ::
  "'w rdma_ops \<Rightarrow> io_worker \<Rightarrow> 'w \<Rightarrow> 'w step_result" where
  "client_handshake ra wk w =
     (case run_steps ra [Call Query_device, Call Connect, Event ESTABLISHED, Call Reg_token_mr, Call Post_token_recv] w of
        (ok, w1) \<Rightarrow>
      if \<not> ok then Some ((False, wk), w1)
      else (case await_token ra w1 of
        None \<Rightarrow> None
      | Some (ok, w2) \<Rightarrow>
          if \<not> ok then Some ((False, wk), w2)
          else (case rd_token ra w2 of (addr, sz, key) \<Rightarrow>
            let wk1 = wk\<lparr>rmt_addr := addr, rmt_size := sz, rmt_rkey := key\<rparr> in
            case rd_memalign ra 4096 (ucast sz) w2 of (pool, w3) \<Rightarrow>
            let wk2 = wk1\<lparr>data_pool := pool\<rparr> in
            if pool = 0 then Some ((False, wk2), w3)
            else case rd_reg_mr ra pool sz w3 of (mr, w4) \<Rightarrow> Some ((mr \<noteq> None, wk2), w4))))"

definition server_handshake ::
  "'w rdma_ops \<Rightarrow> io_worker \<Rightarrow> 'w \<Rightarrow> 'w step_result" where
  "server_handshake ra wk w =
     (case run_steps ra [Call Query_device, Call Accept, Event ESTABLISHED] w of (ok, w1) \<Rightarrow>
      if \<not> ok then Some ((False, wk), w1)
      else case rd_memalign ra 4096 (ucast (data_pool_size wk)) w1 of (pool, w2) \<Rightarrow>
      let wk1 = wk\<lparr>data_pool := pool\<rparr> in
      if pool = 0 then Some ((False, wk1), w2)
      else case rd_reg_mr ra pool (data_pool_size wk) w2 of (mr, w3) \<Rightarrow>
      (case mr of
         None \<Rightarrow> Some ((False, wk1), w3)
       | Some key \<Rightarrow>
           let wk2 = wk1\<lparr>rmt_addr := pool, rmt_size := data_pool_size wk, rmt_rkey := key\<rparr> in
           (case rd_call ra Reg_token_mr w3 of (ret, w4) \<Rightarrow>
            if ret \<noteq> 0 then Some ((False, wk2), w4)
            else case rd_send_token ra (rmt_addr wk2, rmt_size wk2, rmt_rkey wk2) w4 of (ret, w5) \<Rightarrow>
            if ret \<noteq> 0 then Some ((False, wk2), w5)
            else (case await_token ra w5 of
                    None \<Rightarrow> None
                  | Some (ok, w6) \<Rightarrow>
                      if \<not> ok then Some ((False, wk2), w6)
                      else (case rd_call ra Dereg_token_mr w6 of (ret, w7) \<Rightarrow> Some ((ret = 0, wk2), w7))))))"

definition rdma_handshake :: "bench_cfg \<Rightarrow> 'w rdma_ops \<Rightarrow> io_worker \<Rightarrow> 'w \<Rightarrow> 'w step_result" where
  "rdma_handshake cfg ra wk w = (if b_client cfg then client_handshake ra wk w else server_handshake ra wk w)"

section \<open>Reaping completed reads\<close>

text \<open>The \<^verbatim>\<open>for\<close> loop over the completions of one poll: each becomes a write of the ring.\<close>

fun write_wcs :: "bench_cfg \<Rightarrow> 'w ring_ops \<Rightarrow> (bool \<times> u64) list \<Rightarrow> io_worker \<Rightarrow> 'w \<Rightarrow> 'w step_result" where
  "write_wcs cfg rg [] wk w = Some ((True, wk), w)"
| "write_wcs cfg rg ((success, base) # wcs) wk w =
     (if \<not> success then Some ((False, wk), w)
      else (case enqueue_write cfg rg base wk w of
              None \<Rightarrow> None
            | Some ((ok, wk1), w1) \<Rightarrow> if ok then write_wcs cfg rg wcs wk1 w1 else Some ((False, wk1), w1)))"

definition poll_pass_body ::
  "bench_cfg \<Rightarrow> 'w ring_ops \<Rightarrow> 'w rdma_ops \<Rightarrow> io_worker \<times> u32 \<times> 'w \<Rightarrow>
     (io_worker \<times> u32 \<times> 'w) + ((bool \<times> io_worker \<times> u32) \<times> 'w) option" where
  "poll_pass_body cfg rg ra = (\<lambda>(wk, reaped, w).
     case rd_poll ra 16 w of (polled, w1) \<Rightarrow>
     (case polled of
        None \<Rightarrow> Inr (Some ((False, wk, reaped), w1))
      | Some wcs \<Rightarrow>
          if wcs = [] then Inr (Some ((True, wk, reaped), w1))
          else (case write_wcs cfg rg wcs wk w1 of
                  None \<Rightarrow> Inr None
                | Some ((ok, wk1), w2) \<Rightarrow>
                    if \<not> ok then Inr (Some ((False, wk1, reaped), w2))
                    else Inl (wk1\<lparr>free_io_units_rdma := free_io_units_rdma wk1 + of_nat (length wcs)\<rparr>,
                              reaped + of_nat (length wcs), w2))))"

definition cq_event_wait :: "bench_cfg \<Rightarrow> 'w rdma_ops \<Rightarrow> 'w \<Rightarrow> bool \<times> 'w" where
  "cq_event_wait cfg ra w =
     (if \<not> b_event cfg then (True, w)
      else case rd_cq_event ra w of ((ret, same), w1) \<Rightarrow>
      if ret \<noteq> 0 \<or> \<not> same then (False, w1)
      else case rd_call ra Req_notify_cq w1 of (ret, w2) \<Rightarrow> (ret = 0, w2))"

text \<open>From the label \<^verbatim>\<open>again\<close> to the \<^verbatim>\<open>goto\<close>.\<close>

definition again_body ::
  "bench_cfg \<Rightarrow> 'w ring_ops \<Rightarrow> 'w rdma_ops \<Rightarrow> int \<Rightarrow> io_worker \<times> u32 \<times> 'w \<Rightarrow>
     (io_worker \<times> u32 \<times> 'w) + 'w step_result" where
  "again_body cfg rg ra want = (\<lambda>(wk, reaped, w).
     case cq_event_wait cfg ra w of (ok, w1) \<Rightarrow>
     if \<not> ok then Inr (Some ((False, wk), w1))
     else (case loop (poll_pass_body cfg rg ra) (wk, reaped, w1) of
             Some (Some ((ok, wk1, reaped1), w2)) \<Rightarrow>
               if \<not> ok then Inr (Some ((False, wk1), w2))
               else if reaped1 < word_of_int want then Inl (wk1, reaped1, w2)
               else Inr (Some ((True, wk1),
                      if b_event cfg then snd (rd_call ra (Ack_cq_events reaped1) w2) else w2))
           | _ \<Rightarrow> Inr None))"

definition reap_rdma_cq ::
  "bench_cfg \<Rightarrow> 'w ring_ops \<Rightarrow> 'w rdma_ops \<Rightarrow> io_worker \<Rightarrow> int \<Rightarrow> 'w \<Rightarrow> 'w step_result" where
  "reap_rdma_cq cfg rg ra wk want w =
     (case loop (again_body cfg rg ra want) (wk, 0, w) of None \<Rightarrow> None | Some q \<Rightarrow> q)"

section \<open>The client's loop\<close>

text \<open>
  The cursor in the pools is a 32-bit \<^verbatim>\<open>unsigned int\<close>; the comparison with the size of the remote
  buffer is made in 64 bits.
\<close>

definition next_pool_offset :: "u64 \<Rightarrow> u32 \<Rightarrow> u32 \<Rightarrow> u32" where
  "next_pool_offset bs lim off =
     (let off' = ucast (ucast off + bs :: u64) :: u32 in
      if (ucast off' + bs :: u64) \<ge> ucast lim then 0 else off')"

text \<open>\<^verbatim>\<open>sgl.length = bs\<close> truncates to 32 bits; \<^verbatim>\<open>wr_id\<close> is the remote address.\<close>

definition read_request :: "bench_cfg \<Rightarrow> io_worker \<Rightarrow> u32 \<Rightarrow> read_wr" where
  "read_request cfg wk off = \<lparr>wr_local = data_pool wk + ucast off, wr_remote = rmt_addr wk + ucast off,
     wr_len = ucast (b_bs cfg), wr_id = rmt_addr wk + ucast off\<rparr>"

definition rdma_client_terminate :: "'w rdma_ops \<Rightarrow> io_worker \<Rightarrow> 'w \<Rightarrow> 'w" where
  "rdma_client_terminate ra wk w = snd (rd_send_end ra (data_pool wk) w)"

definition rdma_iteration ::
  "bench_cfg \<Rightarrow> 'w ring_ops \<Rightarrow> 'w rdma_ops \<Rightarrow> io_worker \<times> u32 \<times> 'w \<Rightarrow> (io_worker \<times> u32 \<times> 'w) + 'w step_result" where
  "rdma_iteration cfg rg ra = (\<lambda>(wk, off, w).
     case rg_now rg w of (now, w1) \<Rightarrow>
     if runtime_exceeded cfg (start_time wk) now
     then Inr (Some ((True, wk\<lparr>wk_stopped := True\<rparr>), rdma_client_terminate ra wk w1))
     else (let off' = next_pool_offset (b_bs cfg) (rmt_size wk) off;
               wk1 = wk\<lparr>rdma_wr_posted := rdma_wr_posted wk + 1\<rparr> in
       case rd_post_read ra (read_request cfg wk off) w1 of (ret, w2) \<Rightarrow>
       if ret \<noteq> 0 then Inr (Some ((False, wk1), w2))
       else (case (if rdma_wr_posted wk1 mod 16 = 0 then reap_rdma_cq cfg rg ra wk1 0 w2
                   else Some ((True, wk1), w2)) of
         None \<Rightarrow> Inr None
       | Some ((ok, wk2), w3) \<Rightarrow>
           if \<not> ok then Inr (Some ((False, wk2), w3))
           else (let wk3 = wk2\<lparr>free_io_units_rdma := free_io_units_rdma wk2 - 1\<rparr> in
             (case (if free_io_units_rdma wk3 = 0 then reap_rdma_cq cfg rg ra wk3 1 w3
                    else Some ((True, wk3), w3)) of
                None \<Rightarrow> Inr None
              | Some ((ok, wk4), w4) \<Rightarrow>
                  if \<not> ok then Inr (Some ((False, wk4), w4)) else Inl (wk4, off', w4))))))"

text \<open>The client after the handshake: the test file and the ring, then the timed loop.\<close>

definition rdma_client_run ::
  "bench_cfg \<Rightarrow> 'w bench_sys \<Rightarrow> 'w ring_ops \<Rightarrow> 'w rdma_ops \<Rightarrow> io_worker \<Rightarrow> 'w \<Rightarrow> 'w step_result" where
  "rdma_client_run cfg sys rg ra wk w =
     (case open_test_file cfg sys wk w of ((ok, wk1), w1) \<Rightarrow>
      if \<not> ok then Some ((False, wk1), w1)
      else case rg_now rg w1 of (now, w2) \<Rightarrow>
      (case loop (rdma_iteration cfg rg ra) (wk1\<lparr>start_time := now\<rparr>, 0, w2) of None \<Rightarrow> None | Some q \<Rightarrow> q))"

text \<open>The server after the handshake: it waits for the client's last message.\<close>

definition rdma_server_run :: "'w rdma_ops \<Rightarrow> io_worker \<Rightarrow> 'w \<Rightarrow> 'w step_result" where
  "rdma_server_run ra wk w =
     (case rd_call ra (Post_end_recv (data_pool wk)) w of (_, w1) \<Rightarrow>
      case rd_cq_event ra w1 of ((ret, same), w2) \<Rightarrow>
      if ret \<noteq> 0 \<or> \<not> same then Some ((False, wk), w2)
      else case rd_poll ra 1 w2 of (polled, w3) \<Rightarrow>
      (case polled of
         Some [_] \<Rightarrow> (case rd_call ra (Ack_cq_events 1) w3 of (_, w4) \<Rightarrow> Some ((True, wk), w4))
       | _ \<Rightarrow> Some ((False, wk), w3)))"

definition do_io_user_rdma ::
  "bench_cfg \<Rightarrow> 'w bench_sys \<Rightarrow> 'w ring_ops \<Rightarrow> 'w rdma_ops \<Rightarrow> io_worker \<Rightarrow> 'w \<Rightarrow> 'w step_result" where
  "do_io_user_rdma cfg sys rg ra wk w =
     (case rdma_setup cfg ra wk w of (ok, w1) \<Rightarrow>
      if \<not> ok then Some ((False, wk), w1)
      else (case rdma_handshake cfg ra wk w1 of
              None \<Rightarrow> None
            | Some ((ok, wk1), w2) \<Rightarrow>
                if \<not> ok then Some ((False, wk1), w2)
                else if b_client cfg then rdma_client_run cfg sys rg ra wk1 w2
                else rdma_server_run ra wk1 w2))"

section \<open>What the ring does not touch\<close>

text \<open>A view of the world that no call of the ring changes, such as the reads outstanding.\<close>

definition ring_frame :: "'w ring_ops \<Rightarrow> ('w \<Rightarrow> 'a) \<Rightarrow> bool" where
  "ring_frame rg v \<longleftrightarrow>
     (\<forall>w t w'. rg_now rg w = (t, w') \<longrightarrow> v w' = v w) \<and>
     (\<forall>w cqes w'. rg_peek rg w = (cqes, w') \<longrightarrow> v w' = v w) \<and>
     (\<forall>w. v (rg_seen rg w) = v w) \<and>
     (\<forall>w b w'. rg_get_sqe rg w = (b, w') \<longrightarrow> v w' = v w) \<and>
     (\<forall>fd a n off w. v (rg_prep rg fd a n off w) = v w) \<and>
     (\<forall>w r w'. rg_submit rg w = (r, w') \<longrightarrow> v w' = v w)"

lemma ring_frameD:
  assumes "ring_frame rg v"
  shows "rg_now rg w = (t, w') \<Longrightarrow> v w' = v w" and "rg_peek rg w = (cqes, w') \<Longrightarrow> v w' = v w"
    and "v (rg_seen rg w) = v w" and "rg_get_sqe rg w = (b, w') \<Longrightarrow> v w' = v w"
    and "v (rg_prep rg fd a n off w) = v w" and "rg_submit rg w = (r, w') \<Longrightarrow> v w' = v w"
  using assms unfolding ring_frame_def by metis+

text \<open>The view and the worker's free RDMA units have given values.\<close>

definition holds :: "('w \<Rightarrow> 'a) \<Rightarrow> 'a \<Rightarrow> u64 \<Rightarrow> io_worker \<Rightarrow> 'w \<Rightarrow> bool" where
  "holds v x free wk w \<longleftrightarrow> v w = x \<and> free_io_units_rdma wk = free"

definition result_holds :: "('w \<Rightarrow> 'a) \<Rightarrow> 'a \<Rightarrow> u64 \<Rightarrow> 'w step_result \<Rightarrow> bool" where
  "result_holds v x free q \<longleftrightarrow> (case q of None \<Rightarrow> True | Some ((_, wk), w) \<Rightarrow> holds v x free wk w)"

lemma reap_cqes_holds:
  "ring_frame rg v \<Longrightarrow> holds v x free wk w \<Longrightarrow> reap_cqes rg cqes wk reaped w = ((ok, wk', reaped'), w') \<Longrightarrow>
     holds v x free wk' w'"
proof (induction cqes arbitrary: wk reaped w)
  case (Cons res rest)
  have "holds v x free (wk\<lparr>io_completed := io_completed wk + 1,
      free_io_units_io_uring := free_io_units_io_uring wk + 1\<rparr>) (rg_seen rg w)"
    using Cons.prems(1,2) by (simp add: holds_def ring_frameD(3))
  with Cons show ?case by (auto split: if_splits)
qed simp

lemma reap_uring_holds:
  assumes fr: "ring_frame rg v" and "holds v x free wk w"
    and run: "reap_io_uring_cq rg wk want w = Some ((r, wk'), w')"
  shows "holds v x free wk' w'"
proof -
  have body: "holds v x free wk2 w2" if "holds v x free wk1 w1" and "rg_peek rg w1 = (cqes, wp)"
    and "reap_cqes rg cqes wk1 r1 wp = ((ok, wk2, r2), w2)" for wk1 r1 w1 cqes wp ok wk2 r2 w2
    using reap_cqes_holds [OF fr _ that(3)] that(1) ring_frameD(2) [OF fr that(2)] by (simp add: holds_def)
  have "case ((r, wk'), w') of ((_, wk), w) \<Rightarrow> holds v x free wk w"
  proof (rule loop_rule [OF run [unfolded reap_io_uring_cq_def], where I = "\<lambda>(wk, r, w). holds v x free wk w"])
    fix s s' assume "case s of (wk, r, w) \<Rightarrow> holds v x free wk w" and "reap_body rg want s = Inl s'"
    then show "case s' of (wk, r, w) \<Rightarrow> holds v x free wk w"
      by (auto simp: reap_body_def split: prod.splits if_splits intro: body)
  next
    fix s q assume "case s of (wk, r, w) \<Rightarrow> holds v x free wk w" and "reap_body rg want s = Inr q"
    then show "case q of ((_, wk), w) \<Rightarrow> holds v x free wk w"
      by (auto simp: reap_body_def split: prod.splits if_splits intro: body)
  qed (use assms(2) in simp)
  then show ?thesis by simp
qed

lemma get_sqe_loop_holds:
  assumes fr: "ring_frame rg v" and start: "holds v x free wk w"
    and run: "loop (get_sqe_body rg) (wk, w) = Some q"
  shows "result_holds v x free q"
proof (rule loop_rule [OF run, where I = "\<lambda>(wk, w). holds v x free wk w"])
  have got: "holds v x free wk w1" if "holds v x free wk w" and "rg_get_sqe rg w = (b, w1)" for wk w b w1
    using that ring_frameD(4) [OF fr that(2)] by (simp add: holds_def)
  fix s assume h: "case s of (wk, w) \<Rightarrow> holds v x free wk w"
  { fix s' assume "get_sqe_body rg s = Inl s'"
    then show "case s' of (wk, w) \<Rightarrow> holds v x free wk w" using h
      by (auto simp: get_sqe_body_def split: prod.splits if_splits option.splits
          intro: reap_uring_holds [OF fr got]) }
  { fix q assume "get_sqe_body rg s = Inr q"
    then show "result_holds v x free q" using h
      by (auto simp: get_sqe_body_def result_holds_def split: prod.splits if_splits option.splits
          intro: got reap_uring_holds [OF fr got]) }
qed (use start in simp)

lemma submit_loop_holds:
  assumes fr: "ring_frame rg v" and start: "holds v x free wk w"
    and run: "loop (submit_body rg) (wk, w) = Some q"
  shows "result_holds v x free q"
proof (rule loop_rule [OF run, where I = "\<lambda>(wk, w). holds v x free wk w"])
  have subm: "holds v x free wk w1" if "holds v x free wk w" and "rg_submit rg w = (r, w1)" for wk w r w1
    using that ring_frameD(6) [OF fr that(2)] by (simp add: holds_def)
  have less: "holds v x free (wk\<lparr>sqe_queued := k\<rparr>) w \<longleftrightarrow> holds v x free wk w" for wk k w
    by (simp add: holds_def)
  fix s assume h: "case s of (wk, w) \<Rightarrow> holds v x free wk w"
  { fix s' assume "submit_body rg s = Inl s'"
    then show "case s' of (wk, w) \<Rightarrow> holds v x free wk w" using h
      by (auto simp: submit_body_def less split: prod.splits if_splits option.splits
          intro: subm reap_uring_holds [OF fr subm]) }
  { fix q assume "submit_body rg s = Inr q"
    then show "result_holds v x free q" using h
      by (auto simp: submit_body_def result_holds_def split: prod.splits if_splits option.splits
          intro: reap_uring_holds [OF fr subm]) }
qed (use start in simp)

lemma bindL_holds:
  assumes "\<And>q. m = Some q \<Longrightarrow> result_holds v x free q"
    and "\<And>wk w. holds v x free wk w \<Longrightarrow> result_holds v x free (f wk w)"
  shows "result_holds v x free (bindL m f)"
proof (cases "\<exists>ok wk w. m = Some (Some ((ok, wk), w))")
  case True
  then obtain ok wk w where m: "m = Some (Some ((ok, wk), w))" by blast
  then show ?thesis
    using assms(1) [OF m] assms(2) [of wk w] by (cases ok) (auto simp: bindL_def result_holds_def)
next
  case False
  then have "bindL m f = None" by (auto simp: bindL_def split: option.splits bool.splits)
  then show ?thesis by (simp add: result_holds_def)
qed

lemma enqueue_write_holds:
  assumes fr: "ring_frame rg v" and h: "holds v x free wk w"
  shows "result_holds v x free (enqueue_write cfg rg base wk w)"
  unfolding enqueue_write_def Let_def
proof (intro bindL_holds)
  show "result_holds v x free q" if "loop (get_sqe_body rg) (wk, w) = Some q" for q
    by (rule get_sqe_loop_holds [OF fr h that])
next
  fix wk1 :: io_worker and w1 q
  let ?wk2 = "wk1\<lparr>cur_offset := next_offset (b_bs cfg) (b_file_size cfg) (cur_offset wk1),
      free_io_units_io_uring := free_io_units_io_uring wk1 - 1, sqe_queued := sqe_queued wk1 + 1\<rparr>"
  let ?w2 = "rg_prep rg (wk_fd wk1) base (b_bs cfg) (cur_offset wk1) w1"
  assume "holds v x free wk1 w1"
  then have h2: "holds v x free ?wk2 ?w2" by (simp add: holds_def ring_frameD(5) [OF fr])
  assume "(if sqe_queued ?wk2 = b_batch cfg then loop (submit_body rg) (?wk2, ?w2)
      else Some (Some ((True, ?wk2), ?w2))) = Some q"
  then show "result_holds v x free q" using submit_loop_holds [OF fr h2] h2
    by (auto simp: result_holds_def split: if_splits)
next
  fix wk3 w3 assume "holds v x free wk3 w3"
  then show "result_holds v x free (if free_io_units_io_uring wk3 = 0
      then case reap_io_uring_cq rg wk3 1 w3 of None \<Rightarrow> None
           | Some ((r, wk4), w4) \<Rightarrow> Some ((\<not> r < 0, wk4), w4)
      else Some ((True, wk3), w3))"
    using reap_uring_holds [OF fr, of x free wk3 w3 1]
    by (auto simp: result_holds_def split: option.split)
qed

lemma write_wcs_holds:
  "ring_frame rg v \<Longrightarrow> holds v x free wk w \<Longrightarrow> result_holds v x free (write_wcs cfg rg wcs wk w)"
proof (induction wcs arbitrary: wk w)
  case (Cons c wcs)
  obtain success base where c: "c = (success, base)" by (cases c)
  note e = enqueue_write_holds [OF Cons.prems, of cfg base]
  show ?case
  proof (cases "enqueue_write cfg rg base wk w")
    case None
    then show ?thesis using Cons.prems(2) by (simp add: c result_holds_def)
  next
    case (Some q)
    obtain ok wk1 w1 where q: "q = ((ok, wk1), w1)" by (metis prod.exhaust)
    have "holds v x free wk1 w1" using e Some q by (simp add: result_holds_def)
    then show ?thesis
      using Cons.IH [of wk1 w1] Cons.prems Some q by (simp add: c result_holds_def)
  qed
qed (simp add: result_holds_def)

section \<open>Credit of the RDMA queue\<close>

text \<open>
  What the accounting of reads relies on: \<open>outst\<close> counts the work requests posted and not polled,
  \<open>peak\<close> is the most there have been. A poll returns completions of outstanding requests only.
\<close>

definition rdma_law :: "'w rdma_ops \<Rightarrow> ('w \<Rightarrow> nat) \<Rightarrow> ('w \<Rightarrow> nat) \<Rightarrow> bool" where
  "rdma_law ra outst peak \<longleftrightarrow>
     (\<forall>w r w'. rd_call ra Req_notify_cq w = (r, w') \<longrightarrow> outst w' = outst w \<and> peak w' = peak w) \<and>
     (\<forall>n w r w'. rd_call ra (Ack_cq_events n) w = (r, w') \<longrightarrow> outst w' = outst w \<and> peak w' = peak w) \<and>
     (\<forall>w r w'. rd_cq_event ra w = (r, w') \<longrightarrow> outst w' = outst w \<and> peak w' = peak w) \<and>
     (\<forall>n w w'. rd_poll ra n w = (None, w') \<longrightarrow> outst w' = outst w \<and> peak w' = peak w) \<and>
     (\<forall>n w wcs w'. rd_poll ra n w = (Some wcs, w') \<longrightarrow> outst w' + length wcs = outst w \<and> peak w' = peak w) \<and>
     (\<forall>wr w r w'. rd_post_read ra wr w = (r, w') \<longrightarrow>
        outst w' = (if r = 0 then Suc (outst w) else outst w) \<and> peak w' = max (peak w) (outst w')) \<and>
     (\<forall>a w r w'. rd_send_end ra a w = (r, w') \<longrightarrow>
        outst w' = (if r = 0 then Suc (outst w) else outst w) \<and> peak w' = max (peak w) (outst w'))"

lemma rdma_lawD:
  assumes "rdma_law ra outst peak"
  shows "rd_call ra Req_notify_cq w = (r, w') \<Longrightarrow> outst w' = outst w \<and> peak w' = peak w"
    and "rd_call ra (Ack_cq_events n) w = (r, w') \<Longrightarrow> outst w' = outst w \<and> peak w' = peak w"
    and "rd_cq_event ra w = (q, w') \<Longrightarrow> outst w' = outst w \<and> peak w' = peak w"
    and "rd_poll ra k w = (None, w') \<Longrightarrow> outst w' = outst w \<and> peak w' = peak w"
    and "rd_poll ra k w = (Some wcs, w') \<Longrightarrow> outst w' + length wcs = outst w \<and> peak w' = peak w"
    and "rd_post_read ra wr w = (r, w') \<Longrightarrow>
       outst w' = (if r = 0 then Suc (outst w) else outst w) \<and> peak w' = max (peak w) (outst w')"
    and "rd_send_end ra a w = (r, w') \<Longrightarrow>
       outst w' = (if r = 0 then Suc (outst w) else outst w) \<and> peak w' = max (peak w) (outst w')"
  using assms unfolding rdma_law_def by metis+

text \<open>
  During a reap that started with \<open>f\<close> free units, \<open>t\<close> completions were taken so far; free units and
  outstanding requests add up to \<open>c\<close>.
\<close>

definition gain :: "('w \<Rightarrow> nat) \<Rightarrow> ('w \<Rightarrow> nat) \<Rightarrow> nat \<Rightarrow> nat \<Rightarrow> nat \<Rightarrow> io_worker \<times> u32 \<times> 'w \<Rightarrow> bool" where
  "gain outst peak f c p = (\<lambda>(wk, reaped, w). c < 2 ^ 64 \<and> peak w = p \<and>
     (\<exists>t. reaped = of_nat t \<and> unat (free_io_units_rdma wk) = f + t \<and> f + t + outst w = c))"

lemma gain_frame:
  "gain outst peak f c p (wk, reaped, w) \<Longrightarrow> outst w' = outst w \<Longrightarrow> peak w' = peak w \<Longrightarrow>
     gain outst peak f c p (wk, reaped, w')"
  by (simp add: gain_def)

lemma cq_event_wait_frame:
  assumes "rdma_law ra outst peak" and "cq_event_wait cfg ra w = (ok, w')"
  shows "outst w' = outst w \<and> peak w' = peak w"
  using assms(2) rdma_lawD(1,3) [OF assms(1)]
  by (auto simp: cq_event_wait_def split: if_splits prod.splits)

lemma poll_pass_gain:
  assumes law: "rdma_law ra outst peak" and fr: "ring_frame rg (\<lambda>w. (outst w, peak w))"
    and g: "gain outst peak f c p (wk, reaped, w)"
  shows "case poll_pass_body cfg rg ra (wk, reaped, w) of
       Inl s \<Rightarrow> gain outst peak f c p s
     | Inr None \<Rightarrow> True
     | Inr (Some ((ok, wk', reaped'), w')) \<Rightarrow> peak w' = p \<and> (ok \<longrightarrow> gain outst peak f c p (wk', reaped', w'))"
proof -
  obtain polled w1 where q: "rd_poll ra 16 w = (polled, w1)" by (metis prod.exhaust)
  show ?thesis
  proof (cases polled)
    case None
    then show ?thesis using rdma_lawD(4) [OF law] q g by (auto simp: poll_pass_body_def gain_def)
  next
    case (Some wcs)
    have l: "outst w1 + length wcs = outst w" "peak w1 = peak w" using rdma_lawD(5) [OF law] q Some by auto
    show ?thesis
    proof (cases "wcs = []")
      case True
      then show ?thesis using l q Some g by (simp add: poll_pass_body_def gain_def)
    next
      case False
      have "holds (\<lambda>w. (outst w, peak w)) (outst w1, peak w1) (free_io_units_rdma wk) wk w1"
        by (simp add: holds_def)
      note h = write_wcs_holds [OF fr this, of cfg wcs]
      obtain t where t: "reaped = of_nat t" "unat (free_io_units_rdma wk) = f + t" "f + t + outst w = c" "c < 2 ^ 64"
        using g by (auto simp: gain_def)
      then have "unat (of_nat (length wcs) :: u64) = length wcs"
        using l by (simp add: unsigned_of_nat take_bit_nat_eq_self)
      then have "unat (free_io_units_rdma wk + of_nat (length wcs)) = f + (t + length wcs)"
        using t l by (simp add: unat_word_ariths)
      moreover have "f + (t + length wcs) + outst w1 = c" using t l by simp
      ultimately have "gain outst peak f c p (wk1\<lparr>free_io_units_rdma := free_io_units_rdma wk1 + of_nat (length wcs)\<rparr>,
          reaped + of_nat (length wcs), w2)"
        if "free_io_units_rdma wk1 = free_io_units_rdma wk" "outst w2 = outst w1" "peak w2 = peak w1" for wk1 w2
        using that t l g by (auto simp: gain_def intro: exI [of _ "t + length wcs"])
      then show ?thesis using h l g False
        by (auto simp: poll_pass_body_def q Some result_holds_def holds_def gain_def split: option.splits)
    qed
  qed
qed

lemma poll_loop_gain:
  assumes law: "rdma_law ra outst peak" and fr: "ring_frame rg (\<lambda>w. (outst w, peak w))"
    and g: "gain outst peak f c p s" and run: "loop (poll_pass_body cfg rg ra) s = Some q"
  shows "case q of None \<Rightarrow> True | Some ((ok, wk', reaped'), w') \<Rightarrow>
     peak w' = p \<and> (ok \<longrightarrow> gain outst peak f c p (wk', reaped', w'))"
proof (rule loop_rule [OF run, where I = "gain outst peak f c p", OF g])
  note body = poll_pass_gain [OF law fr, where cfg = cfg]
  fix s s' assume "gain outst peak f c p s" and "poll_pass_body cfg rg ra s = Inl s'"
  then show "gain outst peak f c p s'" using body by (cases s) fastforce
next
  note body = poll_pass_gain [OF law fr, where cfg = cfg]
  fix s q assume "gain outst peak f c p s" and "poll_pass_body cfg rg ra s = Inr q"
  then show "case q of None \<Rightarrow> True | Some ((ok, wk', reaped'), w') \<Rightarrow>
     peak w' = p \<and> (ok \<longrightarrow> gain outst peak f c p (wk', reaped', w'))" using body by (cases s) fastforce
qed

definition rcredit :: "('w \<Rightarrow> nat) \<Rightarrow> ('w \<Rightarrow> nat) \<Rightarrow> nat \<Rightarrow> nat \<Rightarrow> nat \<Rightarrow> io_worker \<Rightarrow> 'w \<Rightarrow> bool" where
  "rcredit outst peak f c p wk w \<longleftrightarrow> c < 2 ^ 64 \<and> peak w = p \<and>
     unat (free_io_units_rdma wk) + outst w = c \<and> f \<le> unat (free_io_units_rdma wk)"

lemma gain_rcredit:
  assumes "gain outst peak f c p (wk, reaped, w)" and "\<not> reaped < word_of_int want" and "want = 0 \<or> want = 1"
  shows "rcredit outst peak (f + nat want) c p wk w"
proof -
  obtain t where t: "reaped = of_nat t" "unat (free_io_units_rdma wk) = f + t" "f + t + outst w = c" "c < 2 ^ 64"
    "peak w = p" using assms(1) by (auto simp: gain_def)
  have "want = 1 \<Longrightarrow> t \<noteq> 0" using assms(2) t(1) by (cases "t = 0") (simp_all add: word_less_nat_alt)
  then show ?thesis using t assms(3) by (auto simp: rcredit_def)
qed

text \<open>One round of a reap, and what the whole of it leaves.\<close>

definition reaped :: "('w \<Rightarrow> nat) \<Rightarrow> ('w \<Rightarrow> nat) \<Rightarrow> nat \<Rightarrow> nat \<Rightarrow> nat \<Rightarrow> ((bool \<times> io_worker) \<times> 'w) option \<Rightarrow> bool" where
  "reaped outst peak f c p q = (case q of None \<Rightarrow> True
     | Some ((ok, wk), w) \<Rightarrow> peak w = p \<and> (ok \<longrightarrow> rcredit outst peak f c p wk w))"

lemma again_body_gain:
  assumes law: "rdma_law ra outst peak" and fr: "ring_frame rg (\<lambda>w. (outst w, peak w))"
    and g: "gain outst peak f c p s" and want: "want = 0 \<or> want = 1"
  shows "case again_body cfg rg ra want s of
      Inl s' \<Rightarrow> gain outst peak f c p s' | Inr q \<Rightarrow> reaped outst peak (f + nat want) c p q"
proof -
  obtain wk1 r1 w1 where s: "s = (wk1, r1, w1)" by (metis prod.exhaust)
  obtain ok w2 where e: "cq_event_wait cfg ra w1 = (ok, w2)" by (metis prod.exhaust)
  have g2: "gain outst peak f c p (wk1, r1, w2)"
    using gain_frame [OF g [unfolded s]] cq_event_wait_frame [OF law e] by blast
  have ack: "outst (snd (rd_call ra (Ack_cq_events n) w3)) = outst w3"
    "peak (snd (rd_call ra (Ack_cq_events n) w3)) = peak w3" for n w3
    using rdma_lawD(2) [OF law] by (metis prod.collapse)+
  consider "loop (poll_pass_body cfg rg ra) (wk1, r1, w2) = None"
    | "loop (poll_pass_body cfg rg ra) (wk1, r1, w2) = Some None"
    | ok3 wk3 r3 w3 where "loop (poll_pass_body cfg rg ra) (wk1, r1, w2) = Some (Some ((ok3, wk3, r3), w3))"
    by (metis option.exhaust prod.exhaust)
  then show ?thesis
  proof cases
    case 3
    have p3: "peak w3 = p" and g3: "ok3 \<Longrightarrow> gain outst peak f c p (wk3, r3, w3)"
      using poll_loop_gain [OF law fr g2 3] by auto
    have "rcredit outst peak (f + nat want) c p wk3 w3" if "ok3" and "\<not> r3 < word_of_int want"
      by (rule gain_rcredit [OF g3 [OF that(1)] that(2) want])
    then show ?thesis using g2 g3 p3 3 ack
      by (auto simp: again_body_def s e gain_def rcredit_def reaped_def)
  qed (use g2 in \<open>auto simp: again_body_def s e gain_def reaped_def\<close>)
qed

text \<open>A reap keeps the sum, gives back at least \<open>want\<close> units and posts nothing.\<close>

lemma reap_rdma_credit:
  assumes law: "rdma_law ra outst peak" and fr: "ring_frame rg (\<lambda>w. (outst w, peak w))"
    and start: "rcredit outst peak f c p wk w" and want: "want = 0 \<or> want = 1"
    and run: "reap_rdma_cq cfg rg ra wk want w = Some ((ok, wk'), w')"
  shows "peak w' = p" and "ok \<Longrightarrow> rcredit outst peak (f + nat want) c p wk' w'"
proof -
  let ?f = "unat (free_io_units_rdma wk)"
  note body = again_body_gain [OF law fr _ want, where cfg = cfg and f = ?f and c = c and p = p]
  have g0: "gain outst peak ?f c p (wk, 0, w)"
    using start by (auto simp: gain_def rcredit_def intro: exI [of _ 0])
  obtain q where q: "loop (again_body cfg rg ra want) (wk, 0, w) = Some q" "q = Some ((ok, wk'), w')"
    using run by (auto simp: reap_rdma_cq_def split: option.splits)
  have "reaped outst peak (?f + nat want) c p q"
    by (rule loop_rule [OF q(1), where I = "gain outst peak ?f c p", OF g0]) (use body in fastforce)+
  then show "peak w' = p" and "ok \<Longrightarrow> rcredit outst peak (f + nat want) c p wk' w'"
    using q(2) start by (auto simp: reaped_def rcredit_def)
qed

text \<open>One iteration: it starts with a free unit, posts one read within the depth and ends with a free unit.\<close>

definition loop_credit :: "('w \<Rightarrow> nat) \<Rightarrow> ('w \<Rightarrow> nat) \<Rightarrow> nat \<Rightarrow> io_worker \<times> u32 \<times> 'w \<Rightarrow> bool" where
  "loop_credit outst peak depth = (\<lambda>(wk, off, w). peak w \<le> depth \<and> Suc depth < 2 ^ 64 \<and>
     unat (free_io_units_rdma wk) + outst w = depth \<and> 1 \<le> unat (free_io_units_rdma wk))"

lemma pred_unat: "1 \<le> unat (x :: u64) \<Longrightarrow> Suc (unat (x - 1)) = unat x"
  by (metis Suc_pred less_eq_Suc_le One_nat_def unat_minus_one unat_0 not_one_le_zero)

text \<open>The end of an iteration: one unit is taken, and if it was the last the worker waits for another.\<close>

lemma take_unit_credit:
  assumes law: "rdma_law ra outst peak" and fr: "ring_frame rg (\<lambda>w. (outst w, peak w))"
    and c: "rcredit outst peak 1 (Suc depth) p wk w"
    and r: "(if free_io_units_rdma wk - 1 = 0
         then reap_rdma_cq cfg rg ra (wk\<lparr>free_io_units_rdma := free_io_units_rdma wk - 1\<rparr>) 1 w
         else Some ((True, wk\<lparr>free_io_units_rdma := free_io_units_rdma wk - 1\<rparr>), w)) = Some ((ok, wk'), w')"
  shows "peak w' = p \<and> (ok \<longrightarrow> rcredit outst peak 1 depth p wk' w')"
proof -
  have "Suc (unat (free_io_units_rdma wk - 1)) = unat (free_io_units_rdma wk)"
    using c by (intro pred_unat) (simp add: rcredit_def)
  then have c0: "rcredit outst peak 0 depth p (wk\<lparr>free_io_units_rdma := free_io_units_rdma wk - 1\<rparr>) w"
    and nz: "free_io_units_rdma wk - 1 \<noteq> 0 \<Longrightarrow> 1 \<le> unat (free_io_units_rdma wk - 1)"
    using c by (auto simp: rcredit_def Suc_le_eq unat_gt_0)
  show ?thesis using r c0 nz reap_rdma_credit [OF law fr c0, of 1]
    by (auto simp: rcredit_def split: if_splits)
qed

text \<open>The part of an iteration after a read was posted.\<close>

lemma rdma_posted_credit:
  assumes law: "rdma_law ra outst peak" and fr: "ring_frame rg (\<lambda>w. (outst w, peak w))"
    and n: "rg_now rg w = (now, w1)" and going: "\<not> runtime_exceeded cfg (start_time wk) now"
    and po: "rd_post_read ra (read_request cfg wk off) w1 = (0, w2)" and p2: "peak w2 \<le> depth" "Suc depth < 2 ^ 64"
    and c2: "rcredit outst peak 1 (Suc depth) (peak w2) (wk\<lparr>rdma_wr_posted := rdma_wr_posted wk + 1\<rparr>) w2"
  shows "case rdma_iteration cfg rg ra (wk, off, w) of
       Inl s \<Rightarrow> loop_credit outst peak depth s
     | Inr q \<Rightarrow> (case q of None \<Rightarrow> True | Some ((ok, wk'), w') \<Rightarrow> peak w' \<le> depth)"
proof -
  let ?wk1 = "wk\<lparr>rdma_wr_posted := rdma_wr_posted wk + 1\<rparr>"
  let ?m2 = "if rdma_wr_posted ?wk1 mod 16 = 0 then reap_rdma_cq cfg rg ra ?wk1 0 w2 else Some ((True, ?wk1), w2)"
  note it = rdma_iteration_def n po Let_def
  show ?thesis
  proof (cases "?m2")
    case None
    then show ?thesis using going by (simp add: it)
  next
    case (Some q2)
    obtain ok2 wk2 w3 where q2: "q2 = ((ok2, wk2), w3)" by (metis prod.exhaust)
    have r2: "peak w3 = peak w2 \<and> (ok2 \<longrightarrow> rcredit outst peak 1 (Suc depth) (peak w2) wk2 w3)"
      using Some q2 c2 reap_rdma_credit [OF law fr c2, of 0] by (auto split: if_splits)
    let ?wk3 = "wk2\<lparr>free_io_units_rdma := free_io_units_rdma wk2 - 1\<rparr>"
    let ?m3 = "if free_io_units_rdma wk2 - 1 = 0 then reap_rdma_cq cfg rg ra ?wk3 1 w3 else Some ((True, ?wk3), w3)"
    show ?thesis
    proof (cases "ok2 \<and> ?m3 \<noteq> None")
      case False
      then show ?thesis using going Some q2 r2 p2 by (auto simp: it split: option.splits)
    next
      case True
      then obtain ok3 wk4 w4 where r3: "?m3 = Some ((ok3, wk4), w4)" by (metis option.exhaust prod.exhaust)
      have "rdma_iteration cfg rg ra (wk, off, w) = (if \<not> ok3 then Inr (Some ((False, wk4), w4))
          else Inl (wk4, next_pool_offset (b_bs cfg) (rmt_size wk) off, w4))"
        using going Some q2 True r3 by (simp add: it)
      then show ?thesis
        using take_unit_credit [OF law fr _ r3] r2 True p2 by (simp add: loop_credit_def rcredit_def)
    qed
  qed
qed

lemma rdma_iteration_credit:
  assumes law: "rdma_law ra outst peak" and fr: "ring_frame rg (\<lambda>w. (outst w, peak w))"
    and g: "loop_credit outst peak depth (wk, off, w)"
  shows "case rdma_iteration cfg rg ra (wk, off, w) of
       Inl s \<Rightarrow> loop_credit outst peak depth s
     | Inr q \<Rightarrow> (case q of None \<Rightarrow> True | Some ((ok, wk'), w') \<Rightarrow> peak w' \<le> depth)"
proof -
  obtain now w1 where n: "rg_now rg w = (now, w1)" by (metis prod.exhaust)
  have f1: "outst w1 = outst w" "peak w1 = peak w" using ring_frameD(1) [OF fr n] by auto
  show ?thesis
  proof (cases "runtime_exceeded cfg (start_time wk) now")
    case True
    obtain r w2 where e: "rd_send_end ra (data_pool wk) w1 = (r, w2)" by (metis prod.exhaust)
    from rdma_lawD(7) [OF law e] g f1 have "peak w2 \<le> depth" by (auto simp: loop_credit_def)
    then show ?thesis using True by (simp add: rdma_iteration_def n rdma_client_terminate_def e)
  next
    case False
    obtain ret w2 where po: "rd_post_read ra (read_request cfg wk off) w1 = (ret, w2)" by (metis prod.exhaust)
    note post = rdma_lawD(6) [OF law po]
    have p2: "peak w2 \<le> depth" "Suc depth < 2 ^ 64" using post g f1 by (auto simp: loop_credit_def)
    show ?thesis
    proof (cases "ret = 0")
      case ret: True
      then have "rcredit outst peak 1 (Suc depth) (peak w2) (wk\<lparr>rdma_wr_posted := rdma_wr_posted wk + 1\<rparr>) w2"
        using post g f1 by (auto simp: loop_credit_def rcredit_def)
      then show ?thesis by (rule rdma_posted_credit [OF law fr n False po [unfolded ret] p2])
    qed (use False p2 in \<open>simp add: rdma_iteration_def n po Let_def\<close>)
  qed
qed

lemma rdma_loop_credit:
  assumes law: "rdma_law ra outst peak" and fr: "ring_frame rg (\<lambda>w. (outst w, peak w))"
    and g: "loop_credit outst peak depth s" and run: "loop (rdma_iteration cfg rg ra) s = Some (Some ((ok, wk'), w'))"
  shows "peak w' \<le> depth"
proof -
  note body = rdma_iteration_credit [OF law fr, where cfg = cfg and depth = depth]
  have "case Some ((ok, wk'), w') of None \<Rightarrow> True | Some ((ok, wk'), w') \<Rightarrow> peak w' \<le> depth"
  proof (rule loop_rule [OF run, where I = "loop_credit outst peak depth", OF g])
    fix s s' assume "loop_credit outst peak depth s" and "rdma_iteration cfg rg ra s = Inl s'"
    then show "loop_credit outst peak depth s'" using body by (cases s) fastforce
  next
    fix s q assume "loop_credit outst peak depth s" and "rdma_iteration cfg rg ra s = Inr q"
    then show "case q of None \<Rightarrow> True | Some ((ok, wk'), w') \<Rightarrow> peak w' \<le> depth"
      using body by (cases s) fastforce
  qed
  then show ?thesis by simp
qed

section \<open>The cursor in the pools\<close>

definition pool_valid :: "u64 \<Rightarrow> u32 \<Rightarrow> bool" where
  "pool_valid bs lim \<longleftrightarrow> 0 < bs \<and> unat lim + unat bs < 2 ^ 32"

interpretation pool_cursor: wrap_cursor next_pool_offset unat unat unat 0 pool_valid
proof
  fix b :: u64 and l :: u32 assume "pool_valid b l"
  then show "0 < unat b" by (simp add: pool_valid_def unat_gt_0 word_neq_0_conv)
next
  fix b :: u64 and l p :: u32
  assume v: "pool_valid b l" and p: "unat p < max 1 (unat l)"
  have up: "unat (ucast x :: u64) = unat x" for x :: u32
    by (simp add: unsigned_ucast_eq take_bit_nat_eq_self unsigned_less order.strict_trans [OF unsigned_less])
  have "unat p \<le> unat l" using p by (simp add: max_def split: if_splits)
  then have lt: "unat p + unat b < 2 ^ 32" using v by (simp add: pool_valid_def)
  then have s1: "unat (ucast p + b :: u64) = unat p + unat b" by (simp add: unat_word_ariths up)
  then have s2: "unat (ucast (ucast p + b :: u64) :: u32) = unat p + unat b"
    using lt by (simp add: unsigned_ucast_eq take_bit_nat_eq_self)
  have "unat (ucast (ucast (ucast p + b :: u64) :: u32) + b :: u64) = unat p + unat b + unat b"
    using lt by (simp add: unat_word_ariths up s2)
  then show "unat (next_pool_offset b l p) = (if unat l \<le> unat p + 2 * unat b then 0 else unat p + unat b)"
    using s2 by (simp add: next_pool_offset_def Let_def word_le_nat_alt up)
qed simp

section \<open>The token\<close>

text \<open>What the exchange relies on: \<open>sent\<close> lists the tokens that were sent; only a send adds to it.\<close>

definition token_law :: "'w rdma_ops \<Rightarrow> ('w \<Rightarrow> token list) \<Rightarrow> bool" where
  "token_law ra sent \<longleftrightarrow>
     (\<forall>c w r w'. rd_call ra c w = (r, w') \<longrightarrow> sent w' = sent w) \<and>
     (\<forall>w r w'. rd_event ra w = (r, w') \<longrightarrow> sent w' = sent w) \<and>
     (\<forall>w r w'. rd_cq_event ra w = (r, w') \<longrightarrow> sent w' = sent w) \<and>
     (\<forall>n w r w'. rd_poll ra n w = (r, w') \<longrightarrow> sent w' = sent w) \<and>
     (\<forall>a n w r w'. rd_memalign ra a n w = (r, w') \<longrightarrow> sent w' = sent w) \<and>
     (\<forall>a n w r w'. rd_reg_mr ra a n w = (r, w') \<longrightarrow> sent w' = sent w) \<and>
     (\<forall>t w w'. rd_send_token ra t w = (0, w') \<longrightarrow> sent w' = sent w @ [t])"



declare run_steps.simps [simp del]




section \<open>A concrete device\<close>

text \<open>
  A device for the witnesses: the world of \<open>mem_ring\<close> with the requests outstanding, the most there
  were and the tokens sent; every call succeeds and a poll completes all that is outstanding.
\<close>

type_synonym rdma_world = "ring_world \<times> nat \<times> nat \<times> token list"

definition mem_rring :: "rdma_world ring_ops" where
  "mem_rring = \<lparr>rg_now = (\<lambda>(rw, x). case rg_now mem_ring rw of (t, rw') \<Rightarrow> (t, (rw', x))),
     rg_peek = (\<lambda>(rw, x). case rg_peek mem_ring rw of (l, rw') \<Rightarrow> (l, (rw', x))),
     rg_seen = (\<lambda>(rw, x). (rg_seen mem_ring rw, x)), rg_get_sqe = (\<lambda>w. (True, w)),
     rg_prep = (\<lambda>fd a len off (rw, x). (rg_prep mem_ring fd a len off rw, x)),
     rg_submit = (\<lambda>(rw, x). case rg_submit mem_ring rw of (r, rw') \<Rightarrow> (r, (rw', x)))\<rparr>"

definition mem_rsys :: "rdma_world bench_sys" where
  "mem_rsys = \<lparr>by_open = (\<lambda>_ w. (3, w)), by_fstat = (\<lambda>_ w. ((0, 0), w)), by_fallocate = (\<lambda>_ _ w. (0, w)),
     by_ring_init = (\<lambda>_ w. (0, w)), by_memalign = (\<lambda>_ w. (4096, w))\<rparr>"

definition mem_rdma :: "cm_event \<Rightarrow> (nat \<Rightarrow> bool \<times> u64) \<Rightarrow> token \<Rightarrow> rdma_world rdma_ops" where
  "mem_rdma ev wc tok = \<lparr>rd_call = (\<lambda>c w. (0, w)), rd_event = (\<lambda>w. ((0, ev), w)), rd_cq_event = (\<lambda>w. ((0, True), w)),
     rd_poll = (\<lambda>k (rw, n, p, ts). (Some (map wc [0..<min k n]), (rw, n - min k n, p, ts))),
     rd_memalign = (\<lambda>a k w. (8192, w)), rd_reg_mr = (\<lambda>a k w. (Some 77, w)), rd_token = (\<lambda>w. tok),
     rd_send_token = (\<lambda>t (rw, n, p, ts). (0, (rw, Suc n, max p (Suc n), ts @ [t]))),
     rd_post_read = (\<lambda>wr (rw, n, p, ts). (0, (rw, Suc n, max p (Suc n), ts))),
     rd_send_end = (\<lambda>a (rw, n, p, ts). (0, (rw, Suc n, max p (Suc n), ts)))\<rparr>"


lemma mem_rdma_law:
  "rdma_law (mem_rdma ev wc tok) (\<lambda>(rw, n, p, ts). n) (\<lambda>(rw, n, p, ts). p)"
  "ring_frame mem_rring (\<lambda>w. ((\<lambda>(rw, n, p, ts). n) w, (\<lambda>(rw, n, p, ts). p) w))"
  "token_law (mem_rdma ev wc tok) (\<lambda>(rw, n, p, ts). ts)"
  "sys_frame mem_rsys v"
  by (auto simp: rdma_law_def ring_frame_def token_law_def sys_frame_def mem_rdma_def mem_rring_def mem_rsys_def
      split: prod.splits)

section \<open>Properties\<close>

text \<open>C9: flow control of the RDMA client: a launched worker that runs its loop to the end, however
  completions arrive and however the writes to the ring fare, never has more requests posted than the
  depth of the send queue it created, its last message included.\<close>

theorem rdma_credit:
  assumes law: "rdma_law ra outst peak" and fr: "ring_frame rg (\<lambda>w. (outst w, peak w))"
    and sys: "sys_frame sys (\<lambda>w. (outst w, peak w))"
    and qd: "0 < b_rdma_qd cfg" "is_int (b_rdma_qd cfg)"
    and wk: "free_io_units_rdma wk = free_io_units_rdma (launch_worker cfg garbage)"
    and z: "outst w = 0" "peak w = 0"
    and run: "rdma_client_run cfg sys rg ra wk w = Some ((ok, wk'), w')"
  shows "peak w' \<le> nat (b_rdma_qd cfg)"
proof -
  obtain ok1 wk1 w1 where o: "open_test_file cfg sys wk w = ((ok1, wk1), w1)" by (metis prod.exhaust)
  obtain now w2 where n: "rg_now rg w1 = (now, w2)" by (metis prod.exhaust)
  obtain fd where fd: "wk1 = wk\<lparr>wk_fd := fd\<rparr>" and z1: "outst w1 = 0" "peak w1 = 0"
    using open_test_file_frame [OF sys o] z by auto
  show ?thesis
  proof (cases ok1)
    case False
    then show ?thesis using run z1 by (simp add: rdma_client_run_def o)
  next
    case True
    have "uint (word_of_int (b_rdma_qd cfg) :: u64) = b_rdma_qd cfg"
      using qd by (intro uint64_nonneg) (auto simp: is_int_def)
    then have "unat (word_of_int (b_rdma_qd cfg) :: u64) = nat (b_rdma_qd cfg)" by (metis nat_uint_eq)
    then have u: "unat (free_io_units_rdma wk) = nat (b_rdma_qd cfg)"
      using wk by (simp add: launch_worker_def Let_def)
    have "Suc (nat (b_rdma_qd cfg)) < 2 ^ 64" using qd by (simp add: is_int_def)
    then have g: "loop_credit outst peak (nat (b_rdma_qd cfg)) (wk1\<lparr>start_time := now\<rparr>, 0, w2)"
      using u qd fd z1 ring_frameD(1) [OF fr n] by (simp add: loop_credit_def)
    have "loop (rdma_iteration cfg rg ra) (wk1\<lparr>start_time := now\<rparr>, 0, w2) = Some (Some ((ok, wk'), w'))"
      using run True by (auto simp: rdma_client_run_def o n split: option.splits)
    from rdma_loop_credit [OF law fr g this] show ?thesis .
  qed
qed

definition sample_rdma :: bench_cfg where
  "sample_rdma = bench_options 4 ''/mnt/test'' 1 128 2 1 32 32 True ''10.10.1.2'' 9876 True False"

text \<open>A run of one second: one read, then the last message.\<close>

lemma mem_rdma_run:
  "\<exists>wk' w'. rdma_client_run sample_rdma mem_rsys mem_rring (mem_rdma ESTABLISHED wc tok)
     (launch_worker sample_rdma zero_worker) ((0, 0, 0, 0), 0, 0, []) = Some ((True, wk'), w')"
proof -
  let ?ra = "mem_rdma ESTABLISHED wc tok"
  let ?wk = "(launch_worker sample_rdma zero_worker)\<lparr>wk_fd := 3, start_time := 0\<rparr>"
  let ?wk' = "?wk\<lparr>rdma_wr_posted := 1, free_io_units_rdma := 1\<rparr>"
  have n: "rg_now mem_rring ((t, a), x) = (t, ((t + 1000000000, a), x))" for t a x
    by (cases a) (simp add: mem_rring_def mem_ring_def)
  have "\<exists>off. rdma_iteration sample_rdma mem_rring ?ra (?wk, 0, ((1000000000, 0, 0, 0), 0, 0, [])) =
      Inl (?wk', off, ((2000000000, 0, 0, 0), 1, 1, []))"
    by (simp add: rdma_iteration_def n Let_def runtime_exceeded_def signed_divide_int_def sample_rdma_def
        bench_options_def launch_worker_def zero_worker_def mem_rdma_def)
  then obtain off where i1: "rdma_iteration sample_rdma mem_rring ?ra (?wk, 0, ((1000000000, 0, 0, 0), 0, 0, [])) =
      Inl (?wk', off, ((2000000000, 0, 0, 0), 1, 1, []))" by blast
  have i2: "rdma_iteration sample_rdma mem_rring ?ra (?wk', off, ((2000000000, 0, 0, 0), 1, 1, [])) =
      Inr (Some ((True, ?wk'\<lparr>wk_stopped := True\<rparr>), ((3000000000, 0, 0, 0), 2, 2, [])))"
    by (simp add: rdma_iteration_def n runtime_exceeded_def signed_divide_int_def sample_rdma_def
        bench_options_def mem_rdma_def rdma_client_terminate_def)
  have "loop (rdma_iteration sample_rdma mem_rring ?ra) (?wk, 0, ((1000000000, 0, 0, 0), 0, 0, [])) =
      Some (Some ((True, ?wk'\<lparr>wk_stopped := True\<rparr>), ((3000000000, 0, 0, 0), 2, 2, [])))"
    by (subst loop_next [of "rdma_iteration sample_rdma mem_rring ?ra", OF i1])
      (rule loop_exit [of "rdma_iteration sample_rdma mem_rring ?ra", OF i2])
  then show ?thesis
    by (auto simp: rdma_client_run_def open_test_file_def mem_rsys_def Let_def n)
qed

theorem rdma_credit_witness:
  "\<exists>wk' w'. rdma_client_run sample_rdma mem_rsys mem_rring (mem_rdma ESTABLISHED (\<lambda>_. (True, 0)) (0, 0, 0))
       (launch_worker sample_rdma zero_worker) ((0, 0, 0, 0), 0, 0, []) = Some ((True, wk'), w') \<and>
     (\<lambda>(rw, n, p, ts). p) w' \<le> nat 2"
proof -
  obtain wk' w' where run: "rdma_client_run sample_rdma mem_rsys mem_rring
      (mem_rdma ESTABLISHED (\<lambda>_. (True, 0)) (0, 0, 0)) (launch_worker sample_rdma zero_worker)
      ((0, 0, 0, 0), 0, 0, []) = Some ((True, wk'), w')" using mem_rdma_run by blast
  have qd: "b_rdma_qd sample_rdma = 2" by (simp add: sample_rdma_def bench_options_def)
  from rdma_credit [OF mem_rdma_law(1,2,4) _ _ refl _ _ run] run show ?thesis
    by (auto simp: qd is_int_def)
qed

text \<open>C11: the reads of the RDMA client stay inside the buffer that the server offered: with a block size
  and a buffer whose sum fits in 32 bits, the k-th read covers block \<open>k mod ((size - 1) div bs)\<close> of the
  remote buffer and ends strictly before its end, although the cursor is kept in 32 bits.\<close>

theorem rdma_reads_in_buffer:
  assumes "pool_valid (b_bs cfg) (rmt_size wk)" and "unat (b_bs cfg) < unat (rmt_size wk)"
    and "unat (rmt_addr wk) + unat (rmt_size wk) < 2 ^ 64"
    and "off = (next_pool_offset (b_bs cfg) (rmt_size wk) ^^ k) 0"
  shows "unat (wr_remote (read_request cfg wk off)) =
       unat (rmt_addr wk) + (k mod ((unat (rmt_size wk) - 1) div unat (b_bs cfg))) * unat (b_bs cfg) \<and>
     unat (wr_remote (read_request cfg wk off)) + unat (wr_len (read_request cfg wk off))
       < unat (rmt_addr wk) + unat (rmt_size wk)"
proof -
  let ?b = "unat (b_bs cfg)" and ?l = "unat (rmt_size wk)"
  have b: "0 < ?b" by (rule pool_cursor.blk_pos [OF assms(1)])
  have "1 \<le> (?l - 1) div ?b" using assms(2) b by (simp add: less_eq_div_iff_mult_less_eq)
  then have s: "pool_cursor.slots (b_bs cfg) (rmt_size wk) = (?l - 1) div ?b" by (simp add: pool_cursor.slots_def)
  have o: "unat off = (k mod ((?l - 1) div ?b)) * ?b" "unat off + ?b < ?l"
    using pool_cursor.pos_iterate [OF assms(1), of k] pool_cursor.pos_in_range [OF assms(1,2), of k] assms(4) s by auto
  have up: "unat (ucast off :: u64) = unat off"
    by (simp add: unsigned_ucast_eq take_bit_nat_eq_self order.strict_trans [OF unsigned_less])
  have len: "unat (ucast (b_bs cfg) :: u32) = ?b"
    using assms(1) by (simp add: unsigned_ucast_eq take_bit_nat_eq_self pool_valid_def)
  have "unat (rmt_addr wk + ucast off) = unat (rmt_addr wk) + unat off"
    using assms(3) o(2) up by (simp add: unat_word_ariths)
  then show ?thesis using o len by (simp add: read_request_def)
qed

theorem rdma_reads_in_buffer_witness:
  "unat (wr_remote (read_request sample_rdma (zero_worker\<lparr>rmt_addr := 65536, rmt_size := 40960\<rparr>)
       ((next_pool_offset 4096 40960 ^^ 10) 0))) = 65536 + 4096"
proof -
  have bs: "b_bs sample_rdma = 4096" by (simp add: sample_rdma_def bench_options_def)
  show ?thesis
    using rdma_reads_in_buffer [of sample_rdma "zero_worker\<lparr>rmt_addr := 65536, rmt_size := 40960\<rparr>"
        "(next_pool_offset 4096 40960 ^^ 10) 0" 10]
    by (simp add: bs pool_valid_def)
qed



end
