(* ===== verification/Program_Options.thy ===== *)
theory Program_Options
  imports Client_Threads Aio_Local Bench_Rdma
begin

text \<open>
  The command lines of the three programs that use argparse: \<^verbatim>\<open>parse_args\<close> of
  \<^verbatim>\<open>src/src/file_initiator.cc\<close>, \<^verbatim>\<open>src/src/file_rw_nvmeof.cc\<close> and \<^verbatim>\<open>src/src/benchmark.cc\<close>. An option
  keeps a \<^verbatim>\<open>std::any\<close>: the values that the command line gave it, or its default; \<^verbatim>\<open>get<T>\<close> (line 788
  of \<^verbatim>\<open>third_party/argparse.hpp\<close>) throws unless the type held is exactly \<^verbatim>\<open>T\<close>. How the text of the
  command line is split and scanned is a parameter: \<open>given\<close> maps the name of an option to the values
  stored for it.
\<close>

section \<open>Values of an option\<close>

datatype any_value =
    Any_int int
  | Any_unsigned int
  | Any_bool bool
  | Any_string string
  | Any_cstr string            \<comment> \<open>a \<^verbatim>\<open>const char *\<close>\<close>

type_synonym given = "string \<Rightarrow> any_value list"

definition option_value :: "given \<Rightarrow> string \<Rightarrow> any_value \<Rightarrow> any_value" where [option_access]:
  "option_value given name dflt = (case given name of v # _ \<Rightarrow> v | [] \<Rightarrow> dflt)"

text \<open>A failed cast is \<^verbatim>\<open>std::bad_any_cast\<close>; nobody catches it in the two file programs.\<close>

fun cast_int :: "any_value \<Rightarrow> int outcome" where
  "cast_int (Any_int i) = Inr i"
| "cast_int _ = Inl Terminate"

fun cast_bool :: "any_value \<Rightarrow> bool outcome" where
  "cast_bool (Any_bool b) = Inr b"
| "cast_bool _ = Inl Terminate"

fun cast_string :: "any_value \<Rightarrow> string outcome" where
  "cast_string (Any_string s) = Inr s"
| "cast_string _ = Inl Terminate"

definition get_int :: "given \<Rightarrow> string \<Rightarrow> any_value \<Rightarrow> int outcome" where [option_access]:
  "get_int given name dflt = cast_int (option_value given name dflt)"

definition get_bool :: "given \<Rightarrow> string \<Rightarrow> any_value \<Rightarrow> bool outcome" where [option_access]:
  "get_bool given name dflt = cast_bool (option_value given name dflt)"

definition get_string :: "given \<Rightarrow> string \<Rightarrow> any_value \<Rightarrow> string outcome" where [option_access]:
  "get_string given name dflt = cast_string (option_value given name dflt)"

section \<open>The three parsers\<close>

text \<open>
  The file initiator: the default of \<^verbatim>\<open>-exp\<close> is a string literal and that of \<^verbatim>\<open>-threads\<close> the
  \<^verbatim>\<open>unsigned\<close> result of \<^verbatim>\<open>hardware_concurrency()\<close>. \<^verbatim>\<open>-p\<close> and \<^verbatim>\<open>-r\<close> are read and not used.
\<close>

definition client_parse_args :: "given \<Rightarrow> int \<Rightarrow> client_cfg outcome" where
  "client_parse_args given hardware_concurrency =
     bindF (get_int given ''-d'' (Any_int 128)) (\<lambda>queue_depth.
     bindF (get_int given ''-b'' (Any_int 4096)) (\<lambda>buffer_size.
     bindF (get_int given ''-bs'' (Any_int 4096)) (\<lambda>blk_size.
     bindF (get_int given ''-n'' (Any_int 10000)) (\<lambda>N.
     bindF (get_int given ''-t'' (Any_int 2000)) (\<lambda>threshold.
     bindF (get_bool given ''-l'' (Any_bool False)) (\<lambda>large.
     bindF (get_bool given ''-p'' (Any_bool False)) (\<lambda>poll.
     bindF (get_bool given ''-c'' (Any_bool False)) (\<lambda>closed_loop.
     bindF (get_bool given ''-r'' (Any_bool False)) (\<lambda>test_read.
     bindF (get_string given ''-addr'' (Any_string ''10.10.1.2'')) (\<lambda>addr.
     bindF (get_int given ''-port'' (Any_int 9876)) (\<lambda>port.
     bindF (get_string given ''-exp'' (Any_cstr [])) (\<lambda>exprm.
     bindF (get_int given ''-fn'' (Any_int 1)) (\<lambda>fn.
     bindF (get_int given ''-threads'' (Any_unsigned hardware_concurrency)) (\<lambda>numthreads.
     Inr \<lparr>server_addr = addr, server_port = port, c_buffer_size = word_of_int buffer_size,
          c_blk_size = word_of_int blk_size, c_N = N, c_queue_depth = queue_depth,
          idle_threshold = threshold, c_large = large, c_closed_loop = closed_loop, c_exprm = exprm,
          c_fn = fn, c_numthreads = numthreads\<rparr>))))))))))))))"


text \<open>
  The benchmark prints its help and returns 1 without any argument or on an exception: \<open>None\<close>.
  The order of its options is that of \<open>bench_options\<close>.
\<close>

definition bench_parse_args :: "nat \<Rightarrow> given \<Rightarrow> bench_cfg option" where
  "bench_parse_args argc given =
     (if argc = 1 then None
      else case
        bindF (get_int given ''-bs'' (Any_int 4)) (\<lambda>bs.
        bindF (get_string given ''-file'' (Any_string ''/mnt/test'')) (\<lambda>file.
        bindF (get_int given ''-filesize'' (Any_int 10)) (\<lambda>filesize.
        bindF (get_int given ''-iouring-qd'' (Any_int 128)) (\<lambda>uring_qd.
        bindF (get_int given ''-rdma-qd'' (Any_int 128)) (\<lambda>rdma_qd.
        bindF (get_int given ''-runtime'' (Any_int 30)) (\<lambda>rt.
        bindF (get_int given ''-iouring-batch-submit'' (Any_int 32)) (\<lambda>batch.
        bindF (get_int given ''-rdma-batch-submit'' (Any_int 32)) (\<lambda>rdma_batch.
        bindF (get_bool given ''-client'' (Any_bool False)) (\<lambda>client.
        bindF (get_string given ''-host'' (Any_string ''10.10.1.2'')) (\<lambda>host.
        bindF (get_int given ''-port'' (Any_int 9876)) (\<lambda>port.
        bindF (get_bool given ''-user-rdma'' (Any_bool False)) (\<lambda>user_rdma.
        bindF (get_bool given ''-event'' (Any_bool False)) (\<lambda>event.
        Inr (bench_options bs file filesize uring_qd rdma_qd rt batch rdma_batch client host port user_rdma event))))))))))))))
      of Inr cfg \<Rightarrow> Some cfg | Inl _ \<Rightarrow> None)"

section \<open>What a parsed command line holds\<close>

text \<open>Scanned options hold an \<^verbatim>\<open>int\<close>, flags \<^verbatim>\<open>true\<close>, the others a \<^verbatim>\<open>std::string\<close>.\<close>

definition int_options :: "string set" where
  "int_options = {''-d'', ''-b'', ''-bs'', ''-n'', ''-t'', ''-port'', ''-fn'', ''-threads''}"

definition flag_options :: "string set" where
  "flag_options = {''-l'', ''-p'', ''-c'', ''-r'', ''-a''}"

definition string_options :: "string set" where
  "string_options = {''-addr'', ''-exp''}"

definition well_scanned :: "given \<Rightarrow> bool" where
  "well_scanned given \<longleftrightarrow>
     (\<forall>name \<in> int_options. \<forall>v \<in> set (given name). \<exists>i. v = Any_int i) \<and>
     (\<forall>name \<in> flag_options. \<forall>v \<in> set (given name). v = Any_bool True) \<and>
     (\<forall>name \<in> string_options. \<forall>v \<in> set (given name). \<exists>s. v = Any_string s)"

lemma well_scanned_get:
  assumes "well_scanned given"
  shows "name \<in> int_options \<Longrightarrow> \<exists>i. get_int given name (Any_int k) = Inr i"
    and "name \<in> flag_options \<Longrightarrow> \<exists>b. get_bool given name (Any_bool c) = Inr b"
    and "name \<in> string_options \<Longrightarrow> \<exists>s. get_string given name (Any_string e) = Inr s"
    and "name \<in> int_options \<Longrightarrow> given name \<noteq> [] \<Longrightarrow> \<exists>i. get_int given name dflt = Inr i"
    and "name \<in> string_options \<Longrightarrow> given name \<noteq> [] \<Longrightarrow> \<exists>s. get_string given name dflt = Inr s"
  using assms
  by (cases "given name"; fastforce simp: well_scanned_def option_access)+

text \<open>Success of a bind, when its first part succeeds.\<close>

lemma bindF_ok: "\<exists>x. m = Inr x \<Longrightarrow> (\<And>x. \<exists>y. f x = Inr y) \<Longrightarrow> \<exists>y. bindF m f = Inr y"
  by auto

lemma bindF_fails: "\<exists>x. m = Inr x \<Longrightarrow> (\<And>x. f x = Inl e) \<Longrightarrow> bindF m f = Inl e"
  by auto

section \<open>Properties\<close>

lemmas option_sets = int_options_def flag_options_def string_options_def

text \<open>C37: the file initiator cannot be started with its defaults: on any well-formed command line, its
  \<^verbatim>\<open>parse_args\<close> returns exactly when both \<^verbatim>\<open>-exp\<close> and \<^verbatim>\<open>-threads\<close> were given; otherwise the default of
  the missing option has the wrong type and the process ends by an uncaught exception.\<close>

theorem client_parse_defaults:
  assumes "well_scanned given"
  shows "if given ''-exp'' = [] \<or> given ''-threads'' = [] then client_parse_args given hw = Inl Terminate
     else (\<exists>cfg. client_parse_args given hw = Inr cfg)"
proof -
  note ok = well_scanned_get [OF assms]
  have bad: "given ''-exp'' = [] \<Longrightarrow> get_string given ''-exp'' (Any_cstr []) = Inl Terminate"
    "given ''-threads'' = [] \<Longrightarrow> get_int given ''-threads'' (Any_unsigned hw) = Inl Terminate"
    by (simp_all add: option_access)
  consider (exp) "given ''-exp'' = []" | (threads) "given ''-exp'' \<noteq> []" "given ''-threads'' = []"
    | (both) "given ''-exp'' \<noteq> []" "given ''-threads'' \<noteq> []" by blast
  then show ?thesis
  proof cases
    case exp
    have "client_parse_args given hw = Inl Terminate"
      unfolding client_parse_args_def bad(1) [OF exp]
      by (rule bindF_simps(1) | rule bindF_fails, rule ok(1) ok(2) ok(3), simp add: option_sets)+
    with exp show ?thesis by simp
  next
    case threads
    have "client_parse_args given hw = Inl Terminate"
      unfolding client_parse_args_def bad(2) [OF threads(2)]
      by (rule bindF_simps(1) | rule bindF_fails, rule ok(1) ok(2) ok(3) ok(5) [OF _ threads(1)],
          simp add: option_sets)+
    with threads show ?thesis by simp
  next
    case both
    have "\<exists>cfg. client_parse_args given hw = Inr cfg"
      unfolding client_parse_args_def
      by (intro bindF_ok ok(1-3) ok(5) [OF _ both(1)] ok(4) [OF _ both(2)]) (simp_all add: option_sets)
    with both show ?thesis by simp
  qed
qed

theorem client_parse_defaults_witness:
  "client_parse_args ((\<lambda>_. [])(''-l'' := [Any_bool True])) 8 = Inl Terminate"
  using client_parse_defaults [of "(\<lambda>_. [])(''-l'' := [Any_bool True])" 8]
  by (simp add: well_scanned_def option_sets)



end
