(* ===== verification/Bench_Main.thy ===== *)
theory Bench_Main
  imports Program_Options
begin

text \<open>
  The benchmark program around its worker: \<^verbatim>\<open>set_worker_cpu\<close>, the thread that \<^verbatim>\<open>launch_worker\<close> starts,
  the monitor thread \<^verbatim>\<open>calculate_stats\<close> and \<^verbatim>\<open>main\<close> of \<^verbatim>\<open>src/src/benchmark.cc\<close>. The calls of the
  thread library are the fields of \<open>pthreads\<close>; what the monitor reads of the worker, which runs beside
  it, are the fields of \<open>monitor\<close>.
\<close>

section \<open>Threads\<close>

datatype start_routine = Do_io_user_rdma | Do_io_io_uring | Calculate_stats

text \<open>
  \<^verbatim>\<open>pthread_create\<close> returns its code and stores an identifier; \<^verbatim>\<open>pthread_join\<close> of a value that is not
  the identifier of a thread is undefined.
\<close>

record 'w pthreads =
  pt_create :: "start_routine \<Rightarrow> 'w \<Rightarrow> (int \<times> int) \<times> 'w"
  pt_setaffinity :: "int \<Rightarrow> int set \<Rightarrow> 'w \<Rightarrow> int \<times> 'w"
  pt_join :: "int \<Rightarrow> 'w \<Rightarrow> 'w outcome"

definition set_worker_cpu :: "'w pthreads \<Rightarrow> int \<Rightarrow> int \<Rightarrow> 'w \<Rightarrow> int \<times> 'w" where
  "set_worker_cpu pt tid cpu w =
     (case pt_setaffinity pt tid {cpu} w of (e, w1) \<Rightarrow> (if e \<noteq> 0 then 1 else 0, w1))"

text \<open>
  The whole of \<^verbatim>\<open>launch_worker\<close>: the code of \<^verbatim>\<open>pthread_create\<close> is ignored; when the affinity cannot be
  set the worker, which its thread goes on using, is freed and the result is the null pointer.
\<close>

definition launch_worker_thread ::
  "'w pthreads \<Rightarrow> bench_cfg \<Rightarrow> io_worker \<Rightarrow> int \<Rightarrow> 'w \<Rightarrow> (int \<times> io_worker) option \<times> 'w" where
  "launch_worker_thread pt cfg garbage cpu w =
     (let wk = launch_worker cfg garbage in
      case pt_create pt (if b_user_rdma cfg then Do_io_user_rdma else Do_io_io_uring) w of ((_, tid), w1) \<Rightarrow>
      case set_worker_cpu pt tid cpu w1 of (r, w2) \<Rightarrow>
      (if r \<noteq> 0 then None else Some (tid, wk), w2))"

section \<open>The monitor\<close>




section \<open>The program\<close>

text \<open>
  \<^verbatim>\<open>monitor_thread = pthread_create(&monitor_thread, ...)\<close> replaces the identifier by the code; the
  program then joins the worker and that code.
\<close>

definition bench_main ::
  "'w pthreads \<Rightarrow> nat \<Rightarrow> given \<Rightarrow> io_worker \<Rightarrow> 'w \<Rightarrow> (int \<times> 'w) outcome" where
  "bench_main pt argc given garbage w =
     (case bench_parse_args argc given of
        None \<Rightarrow> Inr (1, w)
      | Some cfg \<Rightarrow>
          (case launch_worker_thread pt cfg garbage 0 w of (worker, w1) \<Rightarrow>
           case pt_create pt Calculate_stats w1 of ((monitor_thread, _), w2) \<Rightarrow>
           (case worker of
              None \<Rightarrow> Inl Null_pointer
            | Some (tid, _) \<Rightarrow>
                bindF (pt_join pt tid w2) (\<lambda>w3. bindF (pt_join pt monitor_thread w3) (\<lambda>w4. Inr (0, w4))))))"

section \<open>Who sets the flag of the worker\<close>

text \<open>The steps of the worker below its timed loop leave the flag \<^verbatim>\<open>stopped\<close> alone.\<close>

definition result_flag :: "bool \<Rightarrow> 'w step_result \<Rightarrow> bool" where
  "result_flag b q \<longleftrightarrow> (case q of None \<Rightarrow> True | Some ((_, wk), _) \<Rightarrow> wk_stopped wk = b)"

lemma result_flag_simps [simp]:
  "result_flag b None" "result_flag b (Some ((ok, wk), w)) \<longleftrightarrow> wk_stopped wk = b"
  by (simp_all add: result_flag_def)










section \<open>Properties\<close>



text \<open>the benchmark has no regular end: when the codes that \<^verbatim>\<open>pthread_create\<close> returns (0, \<^verbatim>\<open>EPERM\<close>,
  \<^verbatim>\<open>EAGAIN\<close>, \<^verbatim>\<open>EINVAL\<close>) are not thread identifiers, a run of \<^verbatim>\<open>main\<close> that returns is one that only
  printed its help; a run that starts its threads joins a thread that does not exist, or, when the
  affinity cannot be set, follows the null pointer.\<close>

theorem bench_main_no_regular_end:
  assumes codes: "\<And>r v. fst (fst (pt_create pt r v)) \<in> {0, 1, 11, 22}"
    and ids: "\<And>e v. e \<in> {0, 1, 11, 22} \<Longrightarrow> pt_join pt e v = Inl Bad_thread"
  shows "(\<forall>r w'. bench_main pt argc given garbage w = Inr (r, w') \<longrightarrow>
        r = 1 \<and> w' = w \<and> bench_parse_args argc given = None) \<and>
     (\<forall>cfg. bench_parse_args argc given = Some cfg \<and> fst (launch_worker_thread pt cfg garbage 0 w) = None \<longrightarrow>
        bench_main pt argc given garbage w = Inl Null_pointer)"
proof -
  have join: "pt_join pt (fst (fst (pt_create pt r v))) u = Inl Bad_thread" for r v u
    by (rule ids [OF codes])
  have never: "bench_main pt argc given garbage w \<noteq> Inr (r, w')" if p: "bench_parse_args argc given = Some cfg" for r w' cfg
  proof -
    obtain worker w1 where l: "launch_worker_thread pt cfg garbage 0 w = (worker, w1)" by (metis prod.exhaust)
    obtain e i w2 where c: "pt_create pt Calculate_stats w1 = ((e, i), w2)" by (metis prod.exhaust)
    have "pt_join pt e u = Inl Bad_thread" for u using join [of Calculate_stats w1 u] c by simp
    then show ?thesis by (auto simp: bench_main_def p l c bindF_eq_Inr split: option.split)
  qed
  then show ?thesis
    by (cases "bench_parse_args argc given") (auto simp: bench_main_def split: prod.splits)
qed

theorem bench_main_no_regular_end_witness:
  "bench_main \<lparr>pt_create = \<lambda>_ v. ((0, 7 + v), v + 1), pt_setaffinity = \<lambda>_ _ v. (0, v),
       pt_join = \<lambda>i v. if i \<in> {0, 1, 11, 22} then Inl Bad_thread else Inr v\<rparr> 2 (\<lambda>_. []) zero_worker (0 :: int) \<noteq> Inr (0, 2)"
proof -
  let ?pt = "\<lparr>pt_create = \<lambda>_ v. ((0, 7 + v), v + 1), pt_setaffinity = \<lambda>_ _ v. (0, v),
       pt_join = \<lambda>i v. if i \<in> {0, 1, 11, 22} then Inl Bad_thread else Inr v\<rparr> :: int pthreads"
  have "\<forall>r w'. bench_main ?pt 2 (\<lambda>_. []) zero_worker 0 = Inr (r, w') \<longrightarrow>
      r = 1 \<and> w' = 0 \<and> bench_parse_args 2 (\<lambda>_. []) = None"
    by (rule conjunct1 [OF bench_main_no_regular_end]) simp_all
  then show ?thesis by (metis zero_neq_one)
qed

end
