(* ===== verification/Spec2Isabelle.thy ===== *)
theory Spec2Isabelle
  imports Block_Programs Block_Concurrent File_Concurrent Blocking_Concurrent Bench_Main
begin

text \<open>
  A verification of the NVMe-over-fabrics experiments of this repository: the C++ programs under
  \<^verbatim>\<open>src/src\<close> that write blocks and files to a remote NVMe device and measure how fast that goes.

  \<^bold>\<open>The programs.\<close> Two services and their clients, and two benchmarks that need no service.
  The block service (\<^verbatim>\<open>net.h\<close>, \<^verbatim>\<open>nvme.h\<close>; programs \<^verbatim>\<open>block_target.cc\<close>, \<^verbatim>\<open>block_initiator.cc\<close>) answers
  \<^verbatim>\<open>WriteBlock\<close> and \<^verbatim>\<open>ReadBlock\<close> calls with NVMe commands; it exists as a synchronous gRPC server, as
  an asynchronous one over a completion queue, and as a loop over a TCP connection. The file service
  (\<^verbatim>\<open>file_target.cc\<close>, client \<^verbatim>\<open>file_initiator.cc\<close>) receives a stream of requests and appends them to
  one file or to one file each, by \<^verbatim>\<open>write\<close> or by io_uring with a second thread for the completions.
  \<^verbatim>\<open>block_rw_nvmeof.cc\<close> and \<^verbatim>\<open>file_rw_nvmeof.cc\<close> do the same on a mounted device, and \<^verbatim>\<open>benchmark.cc\<close>
  compares io_uring writes with RDMA reads that are written out by io_uring.

  \<^bold>\<open>How the model is built.\<close> Every object of the code is a record with its members, every enumeration a
  datatype. A call out of the repository (kernel, gRPC, libnvme, liburing, libaio, librdmacm, ibverbs,
  pthreads, the clock, the random numbers) is an argument: a field of a record of operations that takes
  the state \<open>'w\<close> of the world and returns a result and the next world. What the code relies on is a
  predicate on such a record (the names end in \<open>_law\<close> or \<open>_frame\<close>, or are \<open>tcp_laws\<close>, \<open>tcp_live\<close>), and each
  property that has one as a hypothesis has a witness with a concrete record that satisfies it.
  Undefined behaviour, aborts and uncaught exceptions are values of the datatype \<open>fault\<close>, the left side
  of \<open>outcome\<close>. C integers are \<open>int\<close> with explicit range checks where they are signed, words of their
  width where they are not. Loops whose end depends on the world are \<open>loop\<close>, a \<open>partial_function (option)\<close>:
  a loop that never ends is \<open>None\<close>, there is no fuel; \<open>loop_rule\<close>, \<open>loop_ends\<close> and \<open>loop_diverges\<close> are the
  rules for partial correctness, for termination and for divergence. Concurrent code is a step relation
  over an explicit state, and its theorems speak of all reachable states.

  \<^bold>\<open>The theories\<close>, with the sources they model:

  \<^item> \<open>Nv_Prelude\<close>: machine integers, faults, \<open>loop\<close>, \<^verbatim>\<open>memcpy\<close> out of a string, decimal numerals.
  \<^item> \<open>Tcp_Connection\<close> (\<^verbatim>\<open>TCPConnection\<close> of \<^verbatim>\<open>net.h\<close>): constructors, \<^verbatim>\<open>init\<close>, \<^verbatim>\<open>send\<close>, \<^verbatim>\<open>recv\<close>, \<^verbatim>\<open>close\<close>. However
    the kernel splits the data, a \<^verbatim>\<open>send\<close> delivers and a \<^verbatim>\<open>recv\<close> returns exactly what was asked, and both
    return; the error path of \<^verbatim>\<open>init\<close> hides the failure. Locale \<open>connection\<close>: the contract of the abstract class.
  \<^item> \<open>Nvme_Config\<close> (\<^verbatim>\<open>nvme.h\<close>): \<^verbatim>\<open>init_device_config\<close> on every path, descriptors included; the messages of \<^verbatim>\<open>dump_config\<close>
    and \<^verbatim>\<open>nvme_show_status\<close>, from which the values printed can be read back.
  \<^item> \<open>Block_Service\<close> (\<^verbatim>\<open>GRPCSyncServer\<close> of \<^verbatim>\<open>net.h\<close>): the handlers with their 16-bit block counts, heap block
    and static arguments. An OK answer means the blocks hold the data; when the heap block overflows; the
    counters are consistent. Locale \<open>stat_service\<close>: \<^verbatim>\<open>GetStat\<close> and \<^verbatim>\<open>ResetStat\<close> of both servers.
  \<^item> \<open>Block_Concurrent\<close> (\<^verbatim>\<open>WriteBlock\<close> of \<^verbatim>\<open>net.h\<close>): the same handler split at its accesses to the static arguments,
    and schedules of several calls. One call alone is the handler of \<open>Block_Service\<close>; calls that do not overlap
    issue exactly their own commands; of two that overlap, one can be lost or use freed memory.
  \<^item> \<open>Async_Server\<close> (\<^verbatim>\<open>GRPCAsyncServer\<close> of \<^verbatim>\<open>net.h\<close>): call objects, completion queue and daemon as a step
    relation; its invariant, what it never does (write), and how its destructor ends.
  \<^item> \<open>Block_Clients\<close>, \<open>Block_Programs\<close> (\<^verbatim>\<open>block_rw_nvmeof.cc\<close>, \<^verbatim>\<open>block_target.cc\<close>, \<^verbatim>\<open>block_initiator.cc\<close>): the
    two benchmarks, over a local device and over any \<^verbatim>\<open>Connection\<close>, and the three \<^verbatim>\<open>main\<close> functions; the
    commands of a whole run; the target and the initiator together.
  \<^item> \<open>File_Service\<close> (\<^verbatim>\<open>file_target.cc\<close>): \<^verbatim>\<open>SetParameters\<close>, the statistics and the blocking handlers, which refine
    an abstract store: each OK stream has appended exactly the requests' data.
  \<^item> \<open>Uring_Service\<close>, \<open>File_Server\<close> (\<^verbatim>\<open>file_target.cc\<close>): the io_uring handlers as interleavings of handler,
    kernel and completion thread, in the locale \<open>uring_handler\<close>: no buffer is freed twice or while in use, a
    handler that returns OK has completed every write, it returns when the kernel goes on and blocks when
    the client sent too little; then the closing of the files and the report.
  \<^item> \<open>File_Concurrent\<close> (\<^verbatim>\<open>file_target.cc\<close>): any number of calls of the three io_uring handlers on one server,
    which read its parameters at every use. While these stay as they are each call behaves as in
    \<open>Uring_Service\<close> (\<open>uring_handler\<close> interpreted on the three at once) and the numbered files are not shared; a \<^verbatim>\<open>SetParameters\<close> in between breaks both the wait and the indexing of a call.
  \<^item> \<open>Call_Pool\<close>: schedules of calls on one server object. Locale \<open>call_pool\<close>: the contract under which calls do
    not disturb each other; locale \<open>ending_calls\<close>: a measure bounds how often a call can be scheduled
    (interpreted on \<^verbatim>\<open>WriteBlock\<close> and on the blocking file handlers).
  \<^item> \<open>Blocking_Concurrent\<close> (\<^verbatim>\<open>file_target.cc\<close>): the blocking handlers split at their accesses to parameters,
    counters and files, both locales interpreted on their steps. One call alone does what the handlers of
    \<open>File_Service\<close> do; calls side by side write exactly their own streams and return; appends to shared small
    files are not lost; a \<^verbatim>\<open>SetParameters\<close> with another \<^verbatim>\<open>buffer_size\<close> overflows a buffer; counters lose updates.
  \<^item> \<open>File_Client\<close>, \<open>Client_Threads\<close> (\<^verbatim>\<open>file_initiator.cc\<close>): the tests of the client, that with several threads
    as a step relation.
  \<^item> \<open>File_Local\<close>, \<open>Aio_Local\<close> (\<^verbatim>\<open>file_rw_nvmeof.cc\<close>): the blocking, the io_uring (locale \<open>local_ring\<close>) and the
    libaio tests; what reaches the files, which tests abort or hang.
  \<^item> \<open>Bench_Worker\<close>, \<open>Bench_Rdma\<close>, \<open>Bench_Main\<close> (\<^verbatim>\<open>benchmark.cc\<close>): the io_uring and the RDMA worker, the monitor
    and \<^verbatim>\<open>main\<close>. The credit of a worker bounds what is in flight, offsets stay inside the file and inside the
    server's buffer (locale \<open>wrap_cursor\<close>, interpreted on both), the token arrives unchanged, the batch that
    livelocks, the monitor that never ends.
  \<^item> \<open>Program_Options\<close>: the three \<^verbatim>\<open>parse_args\<close> over the values that the option parser stored.

  This theory composes client and server: the parameters the client announces make the server append
  exactly the client's buffers, for the blocking tests, for several clients of the blocking test with small
  files at once, for the io_uring test and for the test with threads.

  \<^bold>\<open>Bounds.\<close> No property fixes a number of requests, threads, blocks or iterations. The block number range
  \<^verbatim>\<open>int\<close> and the 16-bit count of blocks appear as hypotheses (\<open>wf_request\<close>, \<open>wf_cfg\<close>) exactly where the code
  needs them; outside of them the fault or the wrap-around is what the definitions say.

  \<^bold>\<open>Not modelled.\<close> \<^verbatim>\<open>RDMAConnection\<close> of \<^verbatim>\<open>net.h\<close> and the benchmark of \<^verbatim>\<open>block_initiator.cc\<close>, which are commented
  out; the vendored headers under \<^verbatim>\<open>third_party\<close> except the type check of \<^verbatim>\<open>get\<close>; what the programs print
  for a reader (the messages of \<^verbatim>\<open>nvme.h\<close> apart), the floating-point rates above all; the failure of \<^verbatim>\<open>BuildAndStart\<close>; the empty functions
  \<^verbatim>\<open>test_write_throughput_sequential\<close>,
  \<^verbatim>\<open>test_small_async_multithreads\<close> and \<^verbatim>\<open>test_io_uring_exp_multithreads_small\<close>. Interleaved with
  each other are the calls of \<^verbatim>\<open>WriteBlock\<close>, those of the io_uring handlers with \<^verbatim>\<open>SetParameters\<close>, and those of the
  blocking handlers with \<^verbatim>\<open>SetParameters\<close> and \<^verbatim>\<open>ResetStat\<close>. The calls of \<^verbatim>\<open>ReadBlock\<close>, whose static arguments
  are its own, take the same steps as those of \<^verbatim>\<open>WriteBlock\<close>; the two are not interleaved. The submission of a request
  by an io_uring handler is one step, so that a \<^verbatim>\<open>SetParameters\<close> in the middle of it is not seen there, and
  memory is sequentially consistent: a step sees what the steps before it did.
\<close>

section \<open>End to end: the file client and the file service\<close>

lemma replicate_concat: "concat (replicate n (replicate k x)) = replicate (n * k) x"
  by (induction n) (simp_all add: replicate_add)

lemma filter_upt_single: "i < n \<Longrightarrow> filter (\<lambda>j. j = i) [0..<n] = [i]"
  by (induction n) (auto simp: less_Suc_eq filter_empty_conv)


lemmas chunk_client_data = set_data_prefix(2)

text \<open>
  A client that ran against a server: what the server has to read is what the client sent, and its
  parameters are those the client announced.
\<close>

definition served_by :: "parameters option \<Rightarrow> file_request list \<Rightarrow> file_server \<Rightarrow> fview \<Rightarrow> bool" where
  "served_by ps rqs srv v \<longleftrightarrow>
     (\<exists>p srv0. ps = Some p \<and> srv = snd (SetParameters p srv0)) \<and> fv_pending v = rqs"

lemma served_params:
  assumes "stub_law stub params sent" and "wf_cfg cfg"
    and "fst (sb_SetParameters stub (params_of cfg (idle_threshold cfg) 0) w)"
    and "params w' = params (set_target_params stub cfg w)" and "served_by (params w') (sent w') srv v"
  shows "wf_params srv" and "buffer_size srv = c_buffer_size cfg"
proof -
  obtain srv0 where "srv = snd (SetParameters (params_of cfg (idle_threshold cfg) 0) srv0)"
    using assms(4,5) set_target_params_set [OF assms(1,3)] by (auto simp: served_by_def)
  from wf_cfg_server [OF assms(2) this] show "wf_params srv" and "buffer_size srv = c_buffer_size cfg" .
qed

text \<open>C1: end to end, blocking, one large file: when \<^verbatim>\<open>test_large_blocking\<close> has run against a file server
  with room, the server's handler returns OK and \<^verbatim>\<open>/mnt/large-file\<close> holds exactly \<^verbatim>\<open>N * buffer_size\<close>
  bytes, all of them the client's fill byte, whatever the client read past its buffer; every request
  got its reply.\<close>

theorem end_to_end_large:
  assumes stub: "stub_law stub params sent" and cfg: "wf_cfg cfg"
    and ok: "fst (sb_SetParameters stub (params_of cfg (idle_threshold cfg) 0) w)"
    and run: "test_large_blocking stub cfg past w = Inr (rep, w')"
    and fs: "fs_law px st fv" and served: "served_by (params w') (sent w') srv (fv ws)"
  shows "\<exists>srv' ws'. AppendOneLargeFile px st srv ws = Some (Inr ((Status_OK, srv'), ws')) \<and>
     fv_files (fv ws') ''/mnt/large-file'' =
       Some (replicate (nat (c_N cfg) * unat (c_buffer_size cfg)) 255) \<and>
     length (fv_replies (fv ws')) = length (fv_replies (fv ws)) + nat (c_N cfg)"
proof -
  from blocking_stream_sent [OF stub run [unfolded test_large_blocking_def]] obtain data where
    d: "set_data_cstr past (client_buffer cfg) = Inr data" and
    s: "sent w' = replicate (nat (c_N cfg)) (large_request data)" and
    p: "params w' = params (set_target_params stub cfg w)"
    by (auto simp: map_replicate_const)
  note srv = served_params [OF stub cfg ok p served]
  obtain n where n: "nat (c_N cfg) = Suc n" using cfg by (cases "nat (c_N cfg)") (auto simp: wf_cfg_def)
  have pend: "fv_pending (fv ws) = large_request data # replicate n (large_request data)"
    using served s n by (simp add: served_by_def)
  have "enough_data (unat (c_buffer_size cfg)) (large_request data)"
    using set_data_client_length [OF d] by (auto simp: enough_data_def large_request_def)
  then have "\<forall>r \<in> set (large_request data # replicate n (large_request data)).
      enough_data (unat (buffer_size srv)) r" using srv(2) by auto
  from large_file_effect [OF fs srv(1) pend this] obtain srv' ws' where
    "AppendOneLargeFile px st srv ws = Some (Inr ((Status_OK, srv'), ws'))" and
    v: "fv ws' = \<lparr>fv_files = (fv_files (fv ws))(filename (large_request data) \<mapsto>
           concat (map (chunk (unat (buffer_size srv))) (large_request data # replicate n (large_request data)))),
         fv_fds = fv_fds (fv ws), fv_pending = [],
         fv_replies = fv_replies (fv ws) @
           replicate (length (large_request data # replicate n (large_request data))) empty_file_reply,
         fv_live = fv_live (fv ws) + length (large_request data # replicate n (large_request data))\<rparr>"
    by blast
  moreover have "concat (map (chunk (unat (buffer_size srv))) (large_request data # replicate n (large_request data)))
      = replicate (Suc n * unat (c_buffer_size cfg)) 255"
    using chunk_client_data [OF d] srv(2) replicate_concat [of "Suc n" "unat (c_buffer_size cfg)" 255]
    by (simp add: chunk_def large_request_def client_buffer_def)
  ultimately show ?thesis using n by (auto simp: large_request_def)
qed

theorem end_to_end_large_witness:
  "\<exists>rep w' srv' ws'. test_large_blocking list_stub sample_cfg [7, 0] (None, []) = Inr (rep, w') \<and>
     AppendOneLargeFile memfs_px memfs_st (snd (SetParameters (the (fst w')) file_server0)) (memfs_of (snd w'))
       = Some (Inr ((Status_OK, srv'), ws')) \<and>
     mf_files ws' ''/mnt/large-file'' = Some (replicate 6 255)"
proof -
  obtain rep w' where run: "test_large_blocking list_stub sample_cfg [7, 0] (None, []) = Inr (rep, w')"
    by (simp add: test_large_blocking_def blocking_stream_def set_data_client list_stub_def
        set_target_params_def split: prod.splits)
  have ok: "fst (sb_SetParameters list_stub (params_of sample_cfg (idle_threshold sample_cfg) 0) (None, []))"
    by (simp add: list_stub_def)
  have "fst w' = Some (params_of sample_cfg (idle_threshold sample_cfg) 0)"
    using blocking_stream_sent [OF list_stub_law run [unfolded test_large_blocking_def]]
      set_target_params_set [OF list_stub_law ok] by auto
  then have served: "served_by (fst w') (snd w') (snd (SetParameters (the (fst w')) file_server0))
      (memfs_view (memfs_of (snd w')))"
    by (auto simp: served_by_def memfs_view_def memfs_of_def)
  from end_to_end_large [OF list_stub_law sample_cfg_wf ok run memfs_law served] obtain srv' ws' where
    r: "AppendOneLargeFile memfs_px memfs_st (snd (SetParameters (the (fst w')) file_server0)) (memfs_of (snd w'))
       = Some (Inr ((Status_OK, srv'), ws'))" and
    f: "fv_files (memfs_view ws') ''/mnt/large-file'' =
       Some (replicate (nat (c_N sample_cfg) * unat (c_buffer_size sample_cfg)) 255)" by blast
  have "mf_files ws' ''/mnt/large-file'' = Some (replicate 6 255)"
    using f by (simp add: memfs_view_def sample_cfg_def)
  with run r show ?thesis by blast
qed

text \<open>C13: end to end, blocking, many small files: when \<^verbatim>\<open>test_small_blocking\<close> has run against a file server
  with room, each of the \<^verbatim>\<open>N\<close> files \<^verbatim>\<open>/mnt/small-file-i\<close> has grown by exactly one buffer and no other
  file has changed.\<close>

theorem end_to_end_small:
  assumes stub: "stub_law stub params sent" and cfg: "wf_cfg cfg"
    and ok: "fst (sb_SetParameters stub (params_of cfg (idle_threshold cfg) 0) w)"
    and run: "test_small_blocking stub cfg past w = Inr (rep, w')"
    and fs: "fs_law px st fv" and served: "served_by (params w') (sent w') srv (fv ws)"
  shows "\<exists>srv' ws'. AppendManySmallFiles px st srv ws = Some (Inr ((Status_OK, srv'), ws')) \<and>
     fv_files (fv ws') = (\<lambda>name. if \<exists>i < nat (c_N cfg). name = ''/mnt/small-file-'' @ to_string (int i)
       then Some ((case fv_files (fv ws) name of Some c \<Rightarrow> c | None \<Rightarrow> []) @
              replicate (unat (c_buffer_size cfg)) 255)
       else fv_files (fv ws) name) \<and>
     fv_fds (fv ws') = fv_fds (fv ws)"
proof -
  from blocking_stream_sent [OF stub run [unfolded test_small_blocking_def]] obtain data where
    d: "set_data_cstr past (client_buffer cfg) = Inr data" and
    s: "sent w' = map (small_request_of data) [0..<nat (c_N cfg)]" and
    p: "params w' = params (set_target_params stub cfg w)"
    by auto
  note srv = served_params [OF stub cfg ok p served]
  let ?rqs = "map (small_request_of data) [0..<nat (c_N cfg)]"
  have pend: "fv_pending (fv ws) = ?rqs" using served s by (simp add: served_by_def)
  have "\<forall>r \<in> set (fv_pending (fv ws)). enough_data (unat (buffer_size srv)) r"
    using set_data_client_length [OF d] srv(2) unfolding pend
    by (auto simp: enough_data_def small_request_of_def)
  from small_files_effect [OF fs srv(1) this] obtain srv' ws' where
    "AppendManySmallFiles px st srv ws = Some (Inr ((Status_OK, srv'), ws'))" and
    v: "fv_files (fv ws') = (\<lambda>name. if name \<in> filename ` set ?rqs
        then Some ((case fv_files (fv ws) name of Some c \<Rightarrow> c | None \<Rightarrow> []) @
               concat (map (chunk (unat (buffer_size srv))) (filter (\<lambda>r. filename r = name) ?rqs)))
        else fv_files (fv ws) name)" and "fv_fds (fv ws') = fv_fds (fv ws)"
    unfolding pend by blast
  moreover have "name \<in> filename ` set ?rqs \<longleftrightarrow> (\<exists>i < nat (c_N cfg). name = ''/mnt/small-file-'' @ to_string (int i))"
    for name by (auto simp: small_request_of_def image_iff)
  moreover have "concat (map (chunk (unat (buffer_size srv))) (filter (\<lambda>r. filename r = name) ?rqs)) =
      replicate (unat (c_buffer_size cfg)) 255"
    if "i < nat (c_N cfg)" and "name = ''/mnt/small-file-'' @ to_string (int i)" for name i
  proof -
    have "filter (\<lambda>r. filename r = name) ?rqs = map (small_request_of data) (filter (\<lambda>j. j = i) [0..<nat (c_N cfg)])"
      using that(2) by (auto simp: filter_map comp_def small_request_of_def)
    then have f: "filter (\<lambda>r. filename r = name) ?rqs = [small_request_of data i]"
      by (simp add: filter_upt_single [OF that(1)])
    have "chunk (unat (buffer_size srv)) (small_request_of data i) = client_buffer cfg"
      using chunk_client_data [OF d] srv(2) by (simp add: chunk_def small_request_of_def)
    then show ?thesis unfolding f by (simp add: client_buffer_def)
  qed
  ultimately show ?thesis by (intro exI [of _ srv'] exI [of _ ws']) (auto simp: fun_eq_iff)
qed

theorem end_to_end_small_witness:
  "\<exists>rep w' srv' ws'. test_small_blocking list_stub sample_cfg [0] (None, []) = Inr (rep, w') \<and>
     AppendManySmallFiles memfs_px memfs_st (snd (SetParameters (the (fst w')) file_server0)) (memfs_of (snd w'))
       = Some (Inr ((Status_OK, srv'), ws')) \<and>
     mf_files ws' (''/mnt/small-file-'' @ to_string 2) = Some (replicate 2 255)"
proof -
  obtain rep w' where run: "test_small_blocking list_stub sample_cfg [0] (None, []) = Inr (rep, w')"
    by (simp add: test_small_blocking_def blocking_stream_def set_data_client list_stub_def
        set_target_params_def split: prod.splits)
  have ok: "fst (sb_SetParameters list_stub (params_of sample_cfg (idle_threshold sample_cfg) 0) (None, []))"
    by (simp add: list_stub_def)
  have "fst w' = Some (params_of sample_cfg (idle_threshold sample_cfg) 0)"
    using blocking_stream_sent [OF list_stub_law run [unfolded test_small_blocking_def]]
      set_target_params_set [OF list_stub_law ok] by auto
  then have served: "served_by (fst w') (snd w') (snd (SetParameters (the (fst w')) file_server0))
      (memfs_view (memfs_of (snd w')))"
    by (auto simp: served_by_def memfs_view_def memfs_of_def)
  let ?name = "''/mnt/small-file-'' @ to_string 2"
  from end_to_end_small [OF list_stub_law sample_cfg_wf ok run memfs_law served] obtain srv' ws' where
    r: "AppendManySmallFiles memfs_px memfs_st (snd (SetParameters (the (fst w')) file_server0)) (memfs_of (snd w'))
       = Some (Inr ((Status_OK, srv'), ws'))" and
    f: "fv_files (memfs_view ws') = (\<lambda>name. if \<exists>i < nat (c_N sample_cfg). name = ''/mnt/small-file-'' @ to_string (int i)
       then Some ((case fv_files (memfs_view (memfs_of (snd w'))) name of Some c \<Rightarrow> c | None \<Rightarrow> []) @
              replicate (unat (c_buffer_size sample_cfg)) 255)
       else fv_files (memfs_view (memfs_of (snd w'))) name)" by blast
  have "\<exists>i < nat (c_N sample_cfg). ?name = ''/mnt/small-file-'' @ to_string (int i)"
    by (rule exI [of _ 2]) (simp add: sample_cfg_def)
  then have "fv_files (memfs_view ws') ?name = Some (replicate 2 255)"
    unfolding f by (simp add: memfs_view_def memfs_of_def sample_cfg_def)
  then have "mf_files ws' ?name = Some (replicate 2 255)" by (simp add: memfs_view_def)
  with run r show ?thesis by blast
qed

text \<open>The stream of one client: its requests and what the server copies out of them.\<close>

definition small_stream :: "client_cfg \<Rightarrow> file_request list \<Rightarrow> bool" where
  "small_stream cfg rqs \<longleftrightarrow> (\<exists>data. rqs = map (small_request_of data) [0..<nat (c_N cfg)] \<and>
     (\<exists>extra. data = client_buffer cfg @ extra) \<and> unat (c_buffer_size cfg) \<le> length data)"

lemma small_blocking_stream:
  assumes "stub_law stub params sent" and "test_small_blocking stub cfg past w = Inr (rep, w')"
  shows "small_stream cfg (sent w')"
  using blocking_stream_sent [OF assms(1) assms(2) [unfolded test_small_blocking_def]] set_data_client_length
  unfolding small_stream_def by blast

lemma small_stream_requests:
  assumes "small_stream cfg rqs"
  shows "\<forall>rq \<in> set rqs. copyable (unat (c_buffer_size cfg)) rq \<and> copied (unat (c_buffer_size cfg)) rq = client_buffer cfg"
    and "i < nat (c_N cfg) \<Longrightarrow> length (filter (\<lambda>rq. filename rq = ''/mnt/small-file-'' @ to_string (int i)) rqs) = 1"
proof -
  obtain data extra where rqs: "rqs = map (small_request_of data) [0..<nat (c_N cfg)]" and
    d: "data = client_buffer cfg @ extra" "unat (c_buffer_size cfg) \<le> length data"
    using assms unfolding small_stream_def by blast
  show "\<forall>rq \<in> set rqs. copyable (unat (c_buffer_size cfg)) rq \<and> copied (unat (c_buffer_size cfg)) rq = client_buffer cfg"
    using d by (auto simp: rqs small_request_of_def copyable_def copied_def c_str_def client_buffer_def)
  show "length (filter (\<lambda>rq. filename rq = ''/mnt/small-file-'' @ to_string (int i)) rqs) = 1" if "i < nat (c_N cfg)"
    using filter_upt_single [OF that] by (simp add: rqs filter_map comp_def small_request_of_def)
qed

text \<open>C14: end to end, blocking, many small files, any number of clients at once: when several runs of
  \<^verbatim>\<open>test_small_blocking\<close> with the same parameters are served by one server, whose calls are interleaved
  in any way with each other and with the \<^verbatim>\<open>SetParameters\<close> of the clients, and all calls returned OK, each
  of the \<^verbatim>\<open>N\<close> files has grown by exactly one buffer of every client.\<close>

theorem end_to_end_small_clients:
  assumes stub: "stub_law stub params sent" and cfg: "wf_cfg cfg"
    and clients: "\<forall>rqs \<in> set streams. \<exists>past w rep w'. test_small_blocking stub cfg past w = Inr (rep, w') \<and> rqs = sent w'"
    and srv: "srv = snd (SetParameters (params_of cfg (idle_threshold cfg) 0) srv0)"
    and evs: "only (insert apply_reset {apply_set (params_of cfg (idle_threshold cfg) 0)}) evs"
    and run: "pool_run (bl_step fresh) evs (new_calls (map (Pair Small_handler) streams), new_shared srv) = Inr (cs, sh)"
    and ok: "\<forall>c \<in> set cs. bc_pc c = B_end Status_OK" and i: "i < nat (c_N cfg)"
  shows "kcontents (map snd (bs_log sh)) m (''/mnt/small-file-'' @ to_string (int i)) =
     m (''/mnt/small-file-'' @ to_string (int i)) @ replicate (length streams * unat (c_buffer_size cfg)) 255"
proof -
  let ?f = "''/mnt/small-file-'' @ to_string (int i)" and ?bs = "unat (c_buffer_size cfg)"
  note b = wf_cfg_server [OF cfg srv]
  have st: "small_stream cfg rqs" if mem: "rqs \<in> set streams" for rqs
  proof -
    obtain past w rep w' where "test_small_blocking stub cfg past w = Inr (rep, w')" and "rqs = sent w'"
      using clients mem by blast
    then show ?thesis using small_blocking_stream [OF stub] by simp
  qed
  note rq = small_stream_requests [OF st]
  have wf: "wf_jobs (unat (buffer_size srv)) (map (Pair Small_handler) streams)"
    using b rq(1) by (auto simp: wf_jobs_def wf_params_def)
  have "word_of_int (p_buffer_size (params_of cfg (idle_threshold cfg) 0)) = buffer_size srv"
    by (simp add: srv SetParameters_def)
  then have "only (calm (buffer_size srv)) evs" using evs by (auto simp: only_def calm_def)
  from small_appends [OF wf this run ok, of m ?f] obtain parts where
    c: "kcontents (map snd (bs_log sh)) m ?f = m ?f @ concat parts" and
    parts: "mset parts = mset (map (copied ?bs) (filter (\<lambda>rq. filename rq = ?f) (concat streams)))"
    using b(2) by auto
  have "set parts = set (map (copied ?bs) (filter (\<lambda>rq. filename rq = ?f) (concat streams)))"
    using parts by (rule mset_eq_setD)
  then have "\<forall>p \<in> set parts. p = client_buffer cfg" using rq(1) by auto
  moreover have "length parts = length streams"
  proof -
    have "length parts = sum_list (map (\<lambda>rqs. length (filter (\<lambda>rq. filename rq = ?f) rqs)) streams)"
      using mset_eq_length [OF parts] by (simp add: filter_concat length_concat comp_def)
    also have "\<dots> = sum_list (map (\<lambda>rqs. 1) streams)"
      using rq(2) [OF _ i] by (intro arg_cong [of _ _ sum_list] map_cong) auto
    finally show ?thesis by (simp add: sum_list_triv)
  qed
  ultimately have "parts = replicate (length streams) (client_buffer cfg)" by (simp add: replicate_eqI)
  then show ?thesis using c replicate_concat by (simp add: client_buffer_def)
qed

definition one_file_cfg :: client_cfg where
  "one_file_cfg = sample_cfg\<lparr>c_N := 1\<rparr>"

definition one_file_server :: file_server where
  "one_file_server = snd (SetParameters (params_of one_file_cfg (idle_threshold one_file_cfg) 0) file_server0)"

theorem end_to_end_small_clients_witness:
  "\<exists>cs sh. pool_run (bl_step (\<lambda>_. 99)) (steps alternating) (new_calls (map (Pair Small_handler)
       [[small_request_of [255, 255] 0], [small_request_of [255, 255] 0]]), new_shared one_file_server) = Inr (cs, sh) \<and>
     kcontents (map snd (bs_log sh)) (\<lambda>_. [7]) (''/mnt/small-file-'' @ to_string (int 0)) = [7] @ replicate (2 * 2) 255"
proof -
  let ?rqs = "[small_request_of [255, 255] 0]"
  let ?run = "pool_run (bl_step (\<lambda>_. 99)) (steps alternating) (new_calls (map (Pair Small_handler) [?rqs, ?rqs]), new_shared one_file_server)"
  have "case ?run of Inr (cs, sh) \<Rightarrow> list_all (\<lambda>c. bc_pc c = B_end Status_OK) cs | Inl f \<Rightarrow> False" by code_simp
  then obtain cs sh where run: "?run = Inr (cs, sh)" and ok: "\<forall>c \<in> set cs. bc_pc c = B_end Status_OK"
    by (auto simp: list_all_iff split: sum.splits)
  have cfg: "wf_cfg one_file_cfg" using sample_cfg_wf by (simp add: wf_cfg_def one_file_cfg_def)
  obtain rep w' where t: "test_small_blocking list_stub one_file_cfg [0] (None, []) = Inr (rep, w')"
    by (simp add: test_small_blocking_def blocking_stream_def set_data_client list_stub_def
        set_target_params_def split: prod.splits)
  have "replicate 2 (255 :: byte) = [255, 255]" by (simp only: numeral_2_eq_2 replicate.simps)
  then have "set_data_cstr [0] (client_buffer one_file_cfg) = Inr [255, 255]"
    unfolding set_data_client by (simp add: client_buffer_def one_file_cfg_def sample_cfg_def)
  then have "snd w' = ?rqs"
    using blocking_stream_sent [OF list_stub_law t [unfolded test_small_blocking_def]]
    by (auto simp: one_file_cfg_def)
  then have "\<exists>past w rep w'. test_small_blocking list_stub one_file_cfg past w = Inr (rep, w') \<and> ?rqs = snd w'"
    using t by (metis (no_types))
  then have cl: "\<forall>rqs \<in> set [?rqs, ?rqs]. \<exists>past w rep w'. test_small_blocking list_stub one_file_cfg past w = Inr (rep, w') \<and> rqs = snd w'"
    by (simp only: list.set ball_simps simp_thms)
  have "kcontents (map snd (bs_log sh)) (\<lambda>_. [7]) (''/mnt/small-file-'' @ to_string (int 0)) =
      [7] @ replicate (length [?rqs, ?rqs] * unat (c_buffer_size one_file_cfg)) 255"
    by (rule end_to_end_small_clients [OF list_stub_law cfg cl one_file_server_def steps_calm run ok])
      (simp add: one_file_cfg_def)
  moreover have "length [?rqs, ?rqs] * unat (c_buffer_size one_file_cfg) = 2 * 2" by (simp add: one_file_cfg_def sample_cfg_def)
  ultimately show ?thesis using run by auto
qed



section \<open>End to end: several client threads\<close>





end
